theory Spec2Isabelle
  imports Complex_Main "HOL-Library.Multiset"
begin

section \<open>Python values\<close>

text \<open>
  The benchmark harness analyses records produced by \<^verbatim>\<open>json.loads\<close>. A parsed JSON
  value is one of Python's \<^verbatim>\<open>None\<close>, \<^verbatim>\<open>bool\<close>, \<^verbatim>\<open>int\<close>, \<^verbatim>\<open>float\<close>, \<^verbatim>\<open>str\<close>,
  \<^verbatim>\<open>list\<close> and \<^verbatim>\<open>dict\<close>. Integers are unbounded. A float is modelled by the real number
  it denotes (the non-standard literals NaN and Infinity are not modelled), and a quotient
  of two integers by the exact quotient, which Python rounds to the nearest float.
  A string is a list of characters, one per code point (code points below 256), so that
  \<open>length\<close> is Python's \<^verbatim>\<open>len\<close>. A dict is an association list read with \<open>map_of\<close>.
\<close>

datatype json =
    JNull
  | JBool bool
  | JInt int
  | JFloat real
  | JStr string
  | JArr "json list"
  | JObj "(string \<times> json) list"

type_synonym item = "(string \<times> json) list"

datatype error =
  TypeError | AttributeError | IndexError | ValueError | OSError | RuntimeError | RecursionError

text \<open>Truth value testing, as \<^verbatim>\<open>if x:\<close> and \<^verbatim>\<open>x or y\<close> do it.\<close>

fun truthy :: "json \<Rightarrow> bool" where
  "truthy JNull = False"
| "truthy (JBool b) = b"
| "truthy (JInt i) = (i \<noteq> 0)"
| "truthy (JFloat r) = (r \<noteq> 0)"
| "truthy (JStr s) = (s \<noteq> [])"
| "truthy (JArr xs) = (xs \<noteq> [])"
| "truthy (JObj kvs) = (kvs \<noteq> [])"

definition py_or :: "json \<Rightarrow> json \<Rightarrow> json" where
  "py_or a b = (if truthy a then a else b)"

text \<open>\<^verbatim>\<open>field in item\<close>, \<^verbatim>\<open>item.get(field)\<close> and \<^verbatim>\<open>item.get(field, default)\<close>.\<close>

definition has_key :: "item \<Rightarrow> string \<Rightarrow> bool" where
  "has_key it k = (map_of it k \<noteq> None)"

definition get_default :: "item \<Rightarrow> string \<Rightarrow> json \<Rightarrow> json" where
  "get_default it k d = (case map_of it k of None \<Rightarrow> d | Some v \<Rightarrow> v)"

definition get :: "item \<Rightarrow> string \<Rightarrow> json" where
  "get it k = get_default it k JNull"

text \<open>
  Members of a Python \<^verbatim>\<open>set\<close> and keys of a \<^verbatim>\<open>dict\<close> or \<^verbatim>\<open>Counter\<close> are compared by
  \<^verbatim>\<open>==\<close> and must be hashable. \<^verbatim>\<open>True == 1 == 1.0\<close>, so the numbers share one key;
  a list or a dict is unhashable and hashing it raises \<^verbatim>\<open>TypeError\<close>.
\<close>

datatype hkey = KNone | KNum real | KStr string

fun hash_key :: "json \<Rightarrow> hkey option" where
  "hash_key JNull = Some KNone"
| "hash_key (JBool b) = Some (KNum (if b then 1 else 0))"
| "hash_key (JInt i) = Some (KNum (of_int i))"
| "hash_key (JFloat r) = Some (KNum r)"
| "hash_key (JStr s) = Some (KStr s)"
| "hash_key (JArr xs) = None"
| "hash_key (JObj kvs) = None"

text \<open>
  \<^verbatim>\<open>str.isspace\<close> on the code points below 256, and the test \<^verbatim>\<open>value.strip()\<close>: the
  stripped string is non-empty exactly when some character is not whitespace.
\<close>

definition isspace :: "char \<Rightarrow> bool" where
  "isspace c = (of_char c \<in> {9, 10, 11, 12, 13, 28, 29, 30, 31, 32, 133, 160 :: nat})"

definition strip_nonempty :: "string \<Rightarrow> bool" where
  "strip_nonempty s = list_ex (\<lambda>c. \<not> isspace c) s"

text \<open>Substring test \<^verbatim>\<open>sub in s\<close> and \<^verbatim>\<open>s.split(sep)\<close> for a non-empty separator.\<close>

fun starts_with :: "string \<Rightarrow> string \<Rightarrow> bool" where
  "starts_with [] s = True"
| "starts_with (c # cs) [] = False"
| "starts_with (c # cs) (d # ds) = (c = d \<and> starts_with cs ds)"

fun contains :: "string \<Rightarrow> string \<Rightarrow> bool" where
  "contains sub [] = (sub = [])"
| "contains sub (c # cs) = (starts_with sub (c # cs) \<or> contains sub cs)"

text \<open>
  \<open>split_from sep acc skip s\<close> scans \<open>s\<close> from the left: \<open>acc\<close> is the current piece
  (reversed) and \<open>skip\<close> counts the characters of a separator still to pass over.
\<close>

fun split_from :: "string \<Rightarrow> string \<Rightarrow> nat \<Rightarrow> string \<Rightarrow> string list" where
  "split_from sep acc skip [] = [rev acc]"
| "split_from sep acc skip (c # cs) =
     (if 0 < skip then split_from sep acc (skip - 1) cs
      else if starts_with sep (c # cs) then rev acc # split_from sep [] (length sep - 1) cs
      else split_from sep (c # acc) 0 cs)"

definition py_split :: "string \<Rightarrow> string \<Rightarrow> string list" where
  "py_split s sep = split_from sep [] 0 s"

text \<open>
  \<^verbatim>\<open>str(x)\<close>. The text of \<^verbatim>\<open>None\<close>, of a bool, of an int and of a string is fixed here;
  the \<^verbatim>\<open>repr\<close> of a float, a list or a dict is taken as a parameter \<open>rp\<close>.
\<close>

fun show_nat :: "nat \<Rightarrow> string" where
  "show_nat n =
     (if n < 10 then [char_of (48 + n)] else show_nat (n div 10) @ [char_of (48 + n mod 10)])"

definition show_int :: "int \<Rightarrow> string" where
  "show_int i = (if i < 0 then CHR ''-'' # show_nat (nat (- i)) else show_nat (nat i))"

fun py_str :: "(json \<Rightarrow> string) \<Rightarrow> json \<Rightarrow> string" where
  "py_str rp JNull = ''None''"
| "py_str rp (JBool b) = (if b then ''True'' else ''False'')"
| "py_str rp (JInt i) = show_int i"
| "py_str rp (JStr s) = s"
| "py_str rp v = rp v"

text \<open>
  A \<^verbatim>\<open>Counter\<close> or \<^verbatim>\<open>defaultdict(int)\<close>: keys in order of first insertion, each with its
  count. \<open>bump k\<close> is \<^verbatim>\<open>d[k] += 1\<close>.
\<close>

fun bump :: "'k \<Rightarrow> ('k \<times> nat) list \<Rightarrow> ('k \<times> nat) list" where
  "bump k [] = [(k, 1)]"
| "bump k ((k', n) # kvs) = (if k = k' then (k', n + 1) # kvs else (k', n) # bump k kvs)"

definition counter :: "'k list \<Rightarrow> ('k \<times> nat) list" where
  "counter xs = fold bump xs []"

text \<open>\<^verbatim>\<open>max(xs)\<close> and \<^verbatim>\<open>min(xs)\<close> of a non-empty list of counts.\<close>

fun max_list :: "nat list \<Rightarrow> nat" where
  "max_list [] = 0"
| "max_list [x] = x"
| "max_list (x # y # ys) = max x (max_list (y # ys))"

fun min_list :: "nat list \<Rightarrow> nat" where
  "min_list [] = 0"
| "min_list [x] = x"
| "min_list (x # y # ys) = min x (min_list (y # ys))"

text \<open>The number of distinct members, \<^verbatim>\<open>len(set(xs))\<close>.\<close>

definition n_unique :: "'a list \<Rightarrow> nat" where
  "n_unique xs = length (remdups xs)"


section \<open>Enhanced metrics (\<^verbatim>\<open>enhanced_metrics.py\<close>)\<close>

subsection \<open>\<^verbatim>\<open>analyze_duplication\<close>\<close>

text \<open>
  The loop variables of \<^verbatim>\<open>analyze_duplication\<close>. \<open>post_ids\<close> holds the appended ids by
  their keys: an unhashable id raises at \<^verbatim>\<open>posts_by_id[post_id]\<close> in the same iteration,
  and \<^verbatim>\<open>posts_by_id\<close> is not read afterwards. The content hash
  \<^verbatim>\<open>hashlib.md5(text.encode()).hexdigest()\<close> is the parameter \<open>md5\<close>.
\<close>

record 'h dup_acc =
  post_ids :: "hkey list"
  content_hashes :: "'h list"
  duplicate_count :: nat
  unique_posts :: "'h set"

definition dup_init :: "'h dup_acc" where
  "dup_init = \<lparr>post_ids = [], content_hashes = [], duplicate_count = 0, unique_posts = {}\<rparr>"

definition dup_id :: "'h dup_acc \<Rightarrow> item \<Rightarrow> error + 'h dup_acc" where
  "dup_id st it =
     (let post_id = py_or (get it ''post_id'') (get it ''id'') in
      if truthy post_id then
        (case hash_key post_id of
           None \<Rightarrow> Inl TypeError
         | Some k \<Rightarrow> Inr (st\<lparr>post_ids := post_ids st @ [k]\<rparr>))
      else Inr st)"

definition dup_content :: "(string \<Rightarrow> 'h) \<Rightarrow> 'h dup_acc \<Rightarrow> item \<Rightarrow> error + 'h dup_acc" where
  "dup_content md5 st it =
     (let txt = get_default it ''text'' (JStr []) in
      if truthy txt then
        (case txt of
           JStr s \<Rightarrow>
             (let content_hash = md5 s;
                  st' = (if content_hash \<in> unique_posts st
                         then st\<lparr>duplicate_count := duplicate_count st + 1\<rparr>
                         else st\<lparr>unique_posts := insert content_hash (unique_posts st)\<rparr>)
              in Inr (st'\<lparr>content_hashes := content_hashes st' @ [content_hash]\<rparr>))
         | _ \<Rightarrow> Inl AttributeError)
      else Inr st)"

definition dup_step :: "(string \<Rightarrow> 'h) \<Rightarrow> 'h dup_acc \<Rightarrow> item \<Rightarrow> error + 'h dup_acc" where
  "dup_step md5 st it =
     (case dup_id st it of Inl e \<Rightarrow> Inl e | Inr st1 \<Rightarrow> dup_content md5 st1 it)"

fun dup_loop :: "(string \<Rightarrow> 'h) \<Rightarrow> 'h dup_acc \<Rightarrow> item list \<Rightarrow> error + 'h dup_acc" where
  "dup_loop md5 st [] = Inr st"
| "dup_loop md5 st (it # items) =
     (case dup_step md5 st it of Inl e \<Rightarrow> Inl e | Inr st' \<Rightarrow> dup_loop md5 st' items)"

record duplication_metrics =
  total_posts :: nat
  unique_post_ids :: nat
  unique_content_hashes :: nat
  dm_duplicate_count :: nat
  duplication_rate :: real
  id_duplication_rate :: real
  content_duplication_rate :: real
  duplicate_id_count :: nat
  max_duplications :: nat

definition dup_result :: "'h dup_acc \<Rightarrow> duplication_metrics" where
  "dup_result st =
     (let tp = length (post_ids st);
          upi = n_unique (post_ids st);
          uc = card (unique_posts st);
          duplicate_ids = filter (\<lambda>(pid, c). 1 < c) (counter (post_ids st))
      in \<lparr>total_posts = tp,
          unique_post_ids = upi,
          unique_content_hashes = uc,
          dm_duplicate_count = duplicate_count st,
          duplication_rate = (if 0 < tp then real (duplicate_count st) / real tp else 0),
          id_duplication_rate = (if 0 < tp then (real tp - real upi) / real tp else 0),
          content_duplication_rate = (if 0 < tp then (real tp - real uc) / real tp else 0),
          duplicate_id_count = length duplicate_ids,
          max_duplications =
            (if post_ids st \<noteq> [] then max_list (map snd (counter (post_ids st))) else 0)\<rparr>)"

definition analyze_duplication :: "(string \<Rightarrow> 'h) \<Rightarrow> item list \<Rightarrow> error + duplication_metrics" where
  "analyze_duplication md5 items =
     (case dup_loop md5 dup_init items of Inl e \<Rightarrow> Inl e | Inr st \<Rightarrow> Inr (dup_result st))"

subsection \<open>\<^verbatim>\<open>analyze_author_coverage\<close>\<close>

record author_acc =
  acc_posts_with_authors :: nat
  acc_unique_authors :: "hkey set"
  acc_null_authors :: nat

definition author_init :: author_acc where
  "author_init = \<lparr>acc_posts_with_authors = 0, acc_unique_authors = {}, acc_null_authors = 0\<rparr>"

text \<open>
  \<^verbatim>\<open>author_post_counts\<close> is counted but never read, so it is not part of the state; the
  \<^verbatim>\<open>TypeError\<close> an unhashable author raises comes from \<^verbatim>\<open>unique_authors.add\<close> before it.
\<close>

definition author_step :: "author_acc \<Rightarrow> item \<Rightarrow> error + author_acc" where
  "author_step st it =
     (let author = get it ''author'' in
      if author \<noteq> JNull then
        (case hash_key author of
           None \<Rightarrow> Inl TypeError
         | Some k \<Rightarrow>
             Inr (st\<lparr>acc_posts_with_authors := acc_posts_with_authors st + 1,
                     acc_unique_authors := insert k (acc_unique_authors st)\<rparr>))
      else Inr (st\<lparr>acc_null_authors := acc_null_authors st + 1\<rparr>))"

fun author_loop :: "author_acc \<Rightarrow> item list \<Rightarrow> error + author_acc" where
  "author_loop st [] = Inr st"
| "author_loop st (it # items) =
     (case author_step st it of Inl e \<Rightarrow> Inl e | Inr st' \<Rightarrow> author_loop st' items)"

record author_metrics =
  posts_with_authors :: nat
  posts_without_authors :: nat
  author_coverage_rate :: real
  unique_authors :: nat
  avg_posts_per_author :: real

definition author_result :: "author_acc \<Rightarrow> nat \<Rightarrow> author_metrics" where
  "author_result st n =
     \<lparr>posts_with_authors = acc_posts_with_authors st,
      posts_without_authors = acc_null_authors st,
      author_coverage_rate =
        (if 0 < n then real (acc_posts_with_authors st) / real n else 0),
      unique_authors = card (acc_unique_authors st),
      avg_posts_per_author =
        (if acc_unique_authors st \<noteq> {}
         then real (acc_posts_with_authors st) / real (card (acc_unique_authors st)) else 0)\<rparr>"

definition analyze_author_coverage :: "item list \<Rightarrow> error + author_metrics" where
  "analyze_author_coverage items =
     (case author_loop author_init items of
        Inl e \<Rightarrow> Inl e
      | Inr st \<Rightarrow> Inr (author_result st (length items)))"


subsection \<open>\<^verbatim>\<open>analyze_crawl_behavior\<close>\<close>

text \<open>
  \<open>threads\<close> maps a thread id to the number of items appended to its list (only the
  lengths of the lists are read), \<open>pages\<close> is the set of page urls.
  The test \<^verbatim>\<open>"/threads/" in thread_url\<close> is a substring test on a string, a membership
  test on a list, a key test on a dict, and raises \<^verbatim>\<open>TypeError\<close> on every other value;
  a list or a dict that passes the test has no \<^verbatim>\<open>split\<close>.
\<close>

record crawl_acc =
  threads :: "(string \<times> nat) list"
  pages :: "hkey set"

definition crawl_init :: crawl_acc where
  "crawl_init = \<lparr>threads = [], pages = {}\<rparr>"

definition crawl_thread :: "crawl_acc \<Rightarrow> item \<Rightarrow> error + crawl_acc" where
  "crawl_thread st it =
     (let thread_url = py_or (get it ''thread_url'') (get_default it ''url'' (JStr [])) in
      case thread_url of
        JStr s \<Rightarrow>
          (if contains ''/threads/'' s then
             (case py_split s ''/threads/'' of
                p0 # p1 # ps \<Rightarrow>
                  (case py_split p1 ''/'' of
                     thread_id # qs \<Rightarrow> Inr (st\<lparr>threads := bump thread_id (threads st)\<rparr>)
                   | [] \<Rightarrow> Inl IndexError)
              | _ \<Rightarrow> Inl IndexError)
           else Inr st)
      | JArr xs \<Rightarrow> (if JStr ''/threads/'' \<in> set xs then Inl AttributeError else Inr st)
      | JObj kvs \<Rightarrow> (if has_key kvs ''/threads/'' then Inl AttributeError else Inr st)
      | _ \<Rightarrow> Inl TypeError)"

definition crawl_page :: "crawl_acc \<Rightarrow> item \<Rightarrow> error + crawl_acc" where
  "crawl_page st it =
     (let url = get_default it ''url'' (JStr []) in
      if truthy url then
        (case hash_key url of
           None \<Rightarrow> Inl TypeError
         | Some k \<Rightarrow> Inr (st\<lparr>pages := insert k (pages st)\<rparr>))
      else Inr st)"

definition crawl_step :: "crawl_acc \<Rightarrow> item \<Rightarrow> error + crawl_acc" where
  "crawl_step st it =
     (case crawl_thread st it of Inl e \<Rightarrow> Inl e | Inr st1 \<Rightarrow> crawl_page st1 it)"

fun crawl_loop :: "crawl_acc \<Rightarrow> item list \<Rightarrow> error + crawl_acc" where
  "crawl_loop st [] = Inr st"
| "crawl_loop st (it # items) =
     (case crawl_step st it of Inl e \<Rightarrow> Inl e | Inr st' \<Rightarrow> crawl_loop st' items)"

record crawl_metrics =
  crawl_unique_threads :: nat
  unique_pages :: nat
  avg_thread_depth :: real
  min_thread_depth :: nat
  max_thread_depth :: nat

definition crawl_result :: "crawl_acc \<Rightarrow> crawl_metrics" where
  "crawl_result st =
     (let thread_depths = map snd (threads st) in
      \<lparr>crawl_unique_threads = length (threads st),
       unique_pages = card (pages st),
       avg_thread_depth =
         (if thread_depths \<noteq> []
          then real (sum_list thread_depths) / real (length thread_depths) else 0),
       min_thread_depth = (if thread_depths \<noteq> [] then min_list thread_depths else 0),
       max_thread_depth = (if thread_depths \<noteq> [] then max_list thread_depths else 0)\<rparr>)"

definition analyze_crawl_behavior :: "item list \<Rightarrow> error + crawl_metrics" where
  "analyze_crawl_behavior items =
     (case crawl_loop crawl_init items of Inl e \<Rightarrow> Inl e | Inr st \<Rightarrow> Inr (crawl_result st))"

subsection \<open>\<^verbatim>\<open>EnhancedMetricsAnalyzer.calculate_all_metrics\<close>\<close>

record enhanced_metrics =
  duplication :: duplication_metrics
  authors :: author_metrics
  crawl :: crawl_metrics

text \<open>The empty dict returned for no items is \<open>None\<close>.\<close>

definition enhanced_calculate_all_metrics ::
  "(string \<Rightarrow> 'h) \<Rightarrow> item list \<Rightarrow> error + enhanced_metrics option" where
  "enhanced_calculate_all_metrics md5 items =
     (if items = [] then Inr None
      else
        (case analyze_duplication md5 items of
           Inl e \<Rightarrow> Inl e
         | Inr d \<Rightarrow>
             (case analyze_author_coverage items of
                Inl e \<Rightarrow> Inl e
              | Inr a \<Rightarrow>
                  (case analyze_crawl_behavior items of
                     Inl e \<Rightarrow> Inl e
                   | Inr c \<Rightarrow> Inr (Some \<lparr>duplication = d, authors = a, crawl = c\<rparr>)))))"

section \<open>Quality metrics (\<^verbatim>\<open>quality_metrics.py\<close>)\<close>

text \<open>
  \<^verbatim>\<open>self.metrics\<close> and the benchmark's result document are dicts from key names to
  values; every analyzer takes the dict and returns it updated.
\<close>

datatype mval =
    MInt int
  | MReal real
  | MBool bool
  | MStr string
  | MCounts "(string \<times> nat) list"
  | MEnhanced "enhanced_metrics option"
  | MError error

type_synonym metrics = "string \<rightharpoonup> mval"

definition TEXT_FIELDS :: "string list" where
  "TEXT_FIELDS = [''text'', ''content'', ''body'', ''message'', ''description'', ''summary'']"

definition MIN_NONTRIVIAL_TEXT_LENGTH :: nat where
  "MIN_NONTRIVIAL_TEXT_LENGTH = 50"

definition URL_FIELDS :: "string list" where
  "URL_FIELDS =
     [''url'', ''link'', ''href'', ''source_url'', ''thread_url'', ''post_url'', ''page_url'']"

definition ID_FIELDS :: "string list" where
  "ID_FIELDS = [''id'', ''post_id'', ''comment_id'', ''message_id'', ''item_id'', ''_id'']"

definition AUTHOR_FIELDS :: "string list" where
  "AUTHOR_FIELDS = [''author'', ''user'', ''username'', ''user_name'', ''poster'', ''creator'']"

definition DATE_FIELDS :: "string list" where
  "DATE_FIELDS = [''date'', ''datetime'', ''timestamp'', ''created_at'', ''posted_at'', ''time'']"

text \<open>
  The regular expressions \<^verbatim>\<open>/threads/(\d+)\<close>, \<^verbatim>\<open>/t/([^/]+)\<close>, \<^verbatim>\<open>/topic/(\d+)\<close> and
  \<^verbatim>\<open>/discussion/(\d+)\<close>, as the strings handed to \<^verbatim>\<open>re.search\<close>; \<open>CHR 0x5C\<close> is the
  backslash.
\<close>

definition THREAD_ID_PATTERNS :: "string list" where
  "THREAD_ID_PATTERNS =
     [''/threads/('' @ [CHR 0x5C] @ ''d+)'', ''/t/([^/]+)'',
      ''/topic/('' @ [CHR 0x5C] @ ''d+)'', ''/discussion/('' @ [CHR 0x5C] @ ''d+)'']"

subsection \<open>\<^verbatim>\<open>_extract_text\<close> and \<^verbatim>\<open>_analyze_text_content\<close>\<close>

fun extract_text :: "item \<Rightarrow> string list \<Rightarrow> string" where
  "extract_text it [] = []"
| "extract_text it (field # field_names) =
     (case map_of it field of
        Some (JStr s) \<Rightarrow> (if strip_nonempty s then s else extract_text it field_names)
      | _ \<Rightarrow> extract_text it field_names)"

record text_acc =
  items_with_text :: nat
  items_with_nontrivial_text :: nat
  text_lengths :: "nat list"
  posts_lengths :: "nat list"
  pages_lengths :: "nat list"
  total_text_length :: nat

definition text_init :: text_acc where
  "text_init =
     \<lparr>items_with_text = 0, items_with_nontrivial_text = 0, text_lengths = [],
      posts_lengths = [], pages_lengths = [], total_text_length = 0\<rparr>"

definition text_step :: "text_acc \<Rightarrow> item \<Rightarrow> text_acc" where
  "text_step st it =
     (let txt = extract_text it TEXT_FIELDS in
      if txt \<noteq> [] then
        (let text_len = length txt;
             st1 = st\<lparr>items_with_text := items_with_text st + 1,
                      text_lengths := text_lengths st @ [text_len],
                      total_text_length := total_text_length st + text_len\<rparr>;
             st2 = (if MIN_NONTRIVIAL_TEXT_LENGTH \<le> text_len
                    then st1\<lparr>items_with_nontrivial_text := items_with_nontrivial_text st1 + 1\<rparr>
                    else st1)
         in if has_key it ''thread_url'' \<or> has_key it ''post_id''
            then st2\<lparr>posts_lengths := posts_lengths st2 @ [text_len]\<rparr>
            else if has_key it ''url''
            then st2\<lparr>pages_lengths := pages_lengths st2 @ [text_len]\<rparr>
            else st2)
      else st)"

text \<open>
  The two entries written for a record type of \<^verbatim>\<open>text_lengths_by_type\<close>; a type is in
  that dict only once a length was appended to its list.
\<close>

definition type_metrics :: "string \<Rightarrow> nat list \<Rightarrow> metrics \<Rightarrow> metrics" where
  "type_metrics type_name lengths m =
     (if lengths \<noteq> [] then
        m(''avg_'' @ type_name @ ''_text_length'' \<mapsto>
            MReal (real (sum_list lengths) / real (length lengths)),
          type_name @ ''_count'' \<mapsto> MInt (int (length lengths)))
      else m)"

definition length_metrics :: "nat list \<Rightarrow> metrics \<Rightarrow> metrics" where
  "length_metrics lens m =
     (if lens \<noteq> [] then
        (let sorted_lens = sort lens;
             p25_idx = length sorted_lens div 4;
             p75_idx = (3 * length sorted_lens) div 4
         in m(''min_text_length'' \<mapsto> MInt (int (sorted_lens ! 0)),
              ''max_text_length'' \<mapsto> MInt (int (last sorted_lens)),
              ''median_text_length'' \<mapsto> MInt (int (sorted_lens ! (length sorted_lens div 2))),
              ''text_length_p25'' \<mapsto> MInt (int (sorted_lens ! p25_idx)),
              ''text_length_p75'' \<mapsto> MInt (int (sorted_lens ! p75_idx))))
      else m)"

definition analyze_text_content :: "metrics \<Rightarrow> item list \<Rightarrow> metrics" where
  "analyze_text_content m items =
     (let st = foldl text_step text_init items in
      if 0 < items_with_text st then
        (let m1 = m(''items_with_text'' \<mapsto> MInt (int (items_with_text st)),
                    ''items_missing_text'' \<mapsto>
                       MInt (int (length items) - int (items_with_text st)),
                    ''non_trivial_text_rate'' \<mapsto>
                       MReal (real (items_with_nontrivial_text st) / real (length items)),
                    ''avg_text_length'' \<mapsto>
                       MReal (real (total_text_length st) / real (items_with_text st)),
                    ''total_text_chars'' \<mapsto> MInt (int (total_text_length st)));
             m2 = type_metrics ''pages'' (pages_lengths st)
                    (type_metrics ''posts'' (posts_lengths st) m1)
         in length_metrics (text_lengths st) m2)
      else m)"


subsection \<open>\<^verbatim>\<open>_analyze_urls\<close>\<close>

text \<open>
  \<^verbatim>\<open>urlparse(url).netloc\<close> is the parameter \<open>netloc\<close>; it is \<open>None\<close> where
  \<^verbatim>\<open>urlparse\<close> raises \<^verbatim>\<open>ValueError\<close> (a malformed bracketed host), which nothing catches.
\<close>

record url_acc =
  page_urls :: "string set"
  thread_urls :: "string set"
  all_urls :: "string list"
  domains :: "(string \<times> nat) list"
  url_patterns :: "(string \<times> nat) list"

definition url_init :: url_acc where
  "url_init = \<lparr>page_urls = {}, thread_urls = {}, all_urls = [], domains = [], url_patterns = []\<rparr>"

definition url_track_page :: "url_acc \<Rightarrow> item \<Rightarrow> url_acc" where
  "url_track_page st it =
     (if has_key it ''url'' \<and> \<not> (has_key it ''thread_url'' \<or> has_key it ''post_id'') then
        (case get it ''url'' of
           JStr url \<Rightarrow> st\<lparr>page_urls := insert url (page_urls st), all_urls := all_urls st @ [url]\<rparr>
         | _ \<Rightarrow> st)
      else st)"

definition url_track_thread :: "url_acc \<Rightarrow> item \<Rightarrow> url_acc" where
  "url_track_thread st it =
     (case map_of it ''thread_url'' of
        Some (JStr thread_url) \<Rightarrow>
          st\<lparr>thread_urls := insert thread_url (thread_urls st),
             all_urls := all_urls st @ [thread_url]\<rparr>
      | _ \<Rightarrow> st)"

definition url_pattern_counts :: "string \<Rightarrow> (string \<times> nat) list \<Rightarrow> (string \<times> nat) list" where
  "url_pattern_counts url ps =
     (let ps1 = (if contains ''/threads/'' url then bump ''thread_pattern_count'' ps else ps);
          ps2 = (if contains ''/post-'' url then bump ''post_redirect_count'' ps1 else ps1)
      in if contains ''/page-'' url \<or> contains ''page='' url
         then bump ''pagination_count'' ps2 else ps2)"

fun url_fields_loop ::
  "(string \<Rightarrow> string option) \<Rightarrow> item \<Rightarrow> url_acc \<Rightarrow> string list \<Rightarrow> error + url_acc" where
  "url_fields_loop netloc it st [] = Inr st"
| "url_fields_loop netloc it st (field # rest) =
     (case map_of it field of
        Some (JStr url) \<Rightarrow>
          (case netloc url of
             None \<Rightarrow> Inl ValueError
           | Some host \<Rightarrow>
               url_fields_loop netloc it
                 (st\<lparr>domains := (if host \<noteq> [] then bump host (domains st) else domains st),
                     url_patterns := url_pattern_counts url (url_patterns st)\<rparr>)
                 rest)
      | _ \<Rightarrow> url_fields_loop netloc it st rest)"

fun url_loop :: "(string \<Rightarrow> string option) \<Rightarrow> url_acc \<Rightarrow> item list \<Rightarrow> error + url_acc" where
  "url_loop netloc st [] = Inr st"
| "url_loop netloc st (it # items) =
     (case url_fields_loop netloc it (url_track_thread (url_track_page st it) it) URL_FIELDS of
        Inl e \<Rightarrow> Inl e
      | Inr st' \<Rightarrow> url_loop netloc st' items)"

text \<open>
  \<^verbatim>\<open>sorted(domains.items(), key=lambda x: x[1], reverse=True)[:3]\<close>: a stable sort by
  descending count.
\<close>

definition top_domains :: "(string \<times> nat) list \<Rightarrow> (string \<times> nat) list" where
  "top_domains ds = take 3 (sort_key (\<lambda>(d, c). - int c) ds)"

definition url_result :: "url_acc \<Rightarrow> metrics \<Rightarrow> metrics" where
  "url_result st m =
     (let m1 = m(''unique_page_urls'' \<mapsto> MInt (int (card (page_urls st))),
                 ''unique_thread_urls'' \<mapsto> MInt (int (card (thread_urls st))))
      in if all_urls st \<noteq> [] then
           (let m2 = m1(''total_url_mentions'' \<mapsto> MInt (int (length (all_urls st))),
                        ''unique_urls_combined'' \<mapsto> MInt (int (n_unique (all_urls st))));
                m3 = (if domains st \<noteq> [] then
                        m2(''unique_domains'' \<mapsto> MInt (int (length (domains st))),
                           ''top_domains'' \<mapsto> MCounts (top_domains (domains st)))
                      else m2)
            in if url_patterns st \<noteq> [] then m3(''url_patterns'' \<mapsto> MCounts (url_patterns st))
               else m3)
         else m1)"

definition analyze_urls ::
  "(string \<Rightarrow> string option) \<Rightarrow> metrics \<Rightarrow> item list \<Rightarrow> error + metrics" where
  "analyze_urls netloc m items =
     (case url_loop netloc url_init items of Inl e \<Rightarrow> Inl e | Inr st \<Rightarrow> Inr (url_result st m))"

subsection \<open>\<^verbatim>\<open>_analyze_identifiers\<close>, \<^verbatim>\<open>_analyze_authors\<close>, \<^verbatim>\<open>_analyze_temporal_data\<close>\<close>

text \<open>The inner loops over the candidate field names, left at the first hit by \<^verbatim>\<open>break\<close>.\<close>

fun first_present :: "item \<Rightarrow> string list \<Rightarrow> json option" where
  "first_present it [] = None"
| "first_present it (field # rest) =
     (case map_of it field of Some v \<Rightarrow> Some v | None \<Rightarrow> first_present it rest)"

fun first_truthy :: "item \<Rightarrow> string list \<Rightarrow> json option" where
  "first_truthy it [] = None"
| "first_truthy it (field # rest) =
     (case map_of it field of
        Some v \<Rightarrow> (if truthy v then Some v else first_truthy it rest)
      | None \<Rightarrow> first_truthy it rest)"

fun collect_ids :: "(json \<Rightarrow> string) \<Rightarrow> item list \<Rightarrow> string list" where
  "collect_ids rp [] = []"
| "collect_ids rp (it # items) =
     (case first_present it ID_FIELDS of
        Some v \<Rightarrow> py_str rp v # collect_ids rp items
      | None \<Rightarrow> collect_ids rp items)"

definition analyze_identifiers :: "(json \<Rightarrow> string) \<Rightarrow> metrics \<Rightarrow> item list \<Rightarrow> metrics" where
  "analyze_identifiers rp m items =
     (let all_ids = collect_ids rp items in
      if all_ids \<noteq> [] then
        (let m1 = m(''items_with_ids'' \<mapsto> MInt (int (length all_ids)),
                    ''unique_ids'' \<mapsto> MInt (int (n_unique all_ids)))
         in if n_unique all_ids < length all_ids then
              m1(''duplicate_items'' \<mapsto> MInt (int (length all_ids) - int (n_unique all_ids)),
                 ''duplication_rate'' \<mapsto>
                    MReal ((real (length all_ids) - real (n_unique all_ids))
                           / real (length all_ids)))
            else m1)
      else m)"

fun collect_authors :: "(json \<Rightarrow> string) \<Rightarrow> item list \<Rightarrow> string list" where
  "collect_authors rp [] = []"
| "collect_authors rp (it # items) =
     (case first_truthy it AUTHOR_FIELDS of
        Some v \<Rightarrow> py_str rp v # collect_authors rp items
      | None \<Rightarrow> collect_authors rp items)"

text \<open>The per-author counts \<^verbatim>\<open>_analyze_authors\<close> sorts at its end are not stored.\<close>

definition analyze_authors :: "(json \<Rightarrow> string) \<Rightarrow> metrics \<Rightarrow> item list \<Rightarrow> metrics" where
  "analyze_authors rp m items =
     (let authors_found = collect_authors rp items in
      if authors_found \<noteq> [] then
        m(''items_with_authors'' \<mapsto> MInt (int (length authors_found)),
          ''unique_authors'' \<mapsto> MInt (int (n_unique authors_found)),
          ''items_per_author'' \<mapsto>
             MReal (real (length authors_found) / real (n_unique authors_found)))
      else m)"

fun count_dates :: "item list \<Rightarrow> nat" where
  "count_dates [] = 0"
| "count_dates (it # items) =
     (case first_truthy it DATE_FIELDS of
        Some v \<Rightarrow> 1 + count_dates items
      | None \<Rightarrow> count_dates items)"

definition analyze_temporal_data :: "metrics \<Rightarrow> item list \<Rightarrow> metrics" where
  "analyze_temporal_data m items =
     (let dates_found = count_dates items in
      if 0 < dates_found then
        m(''items_with_dates'' \<mapsto> MInt (int dates_found),
          ''temporal_coverage'' \<mapsto> MReal (real dates_found / real (length items)))
      else m)"

subsection \<open>\<^verbatim>\<open>_analyze_threads\<close>\<close>

text \<open>
  \<open>re_search pattern s\<close> is \<^verbatim>\<open>group(1)\<close> of \<^verbatim>\<open>re.search(pattern, s)\<close>, \<open>None\<close> without a
  match. \<^verbatim>\<open>re.search\<close> raises \<^verbatim>\<open>TypeError\<close> on a value that is not a string, at the
  first pattern.
\<close>

fun first_match :: "(string \<Rightarrow> string \<Rightarrow> string option) \<Rightarrow> string list \<Rightarrow> string \<Rightarrow> string option" where
  "first_match re_search [] url = None"
| "first_match re_search (pattern # patterns) url =
     (case re_search pattern url of
        Some g \<Rightarrow> Some g
      | None \<Rightarrow> first_match re_search patterns url)"

definition thread_id_of_url ::
  "(string \<Rightarrow> string \<Rightarrow> string option) \<Rightarrow> item \<Rightarrow> error + string option" where
  "thread_id_of_url re_search it =
     (if has_key it ''thread_url'' \<or> has_key it ''url'' then
        (case py_or (get it ''thread_url'') (get_default it ''url'' (JStr [])) of
           JStr url \<Rightarrow> Inr (first_match re_search THREAD_ID_PATTERNS url)
         | _ \<Rightarrow> Inl TypeError)
      else Inr None)"

definition thread_id_of ::
  "(string \<Rightarrow> string \<Rightarrow> string option) \<Rightarrow> item \<Rightarrow> error + json" where
  "thread_id_of re_search it =
     (case thread_id_of_url re_search it of
        Inl e \<Rightarrow> Inl e
      | Inr (Some g) \<Rightarrow>
          (if g \<noteq> [] then Inr (JStr g)
           else Inr (py_or (get it ''thread_id'') (get it ''topic_id'')))
      | Inr None \<Rightarrow> Inr (py_or (get it ''thread_id'') (get it ''topic_id'')))"

fun collect_thread_ids ::
  "(string \<Rightarrow> string \<Rightarrow> string option) \<Rightarrow> (json \<Rightarrow> string) \<Rightarrow> item list \<Rightarrow> error + string list" where
  "collect_thread_ids re_search rp [] = Inr []"
| "collect_thread_ids re_search rp (it # items) =
     (case thread_id_of re_search it of
        Inl e \<Rightarrow> Inl e
      | Inr thread_id \<Rightarrow>
          (case collect_thread_ids re_search rp items of
             Inl e \<Rightarrow> Inl e
           | Inr thread_ids \<Rightarrow>
               Inr (if truthy thread_id then py_str rp thread_id # thread_ids else thread_ids)))"

definition thread_result :: "string list \<Rightarrow> metrics \<Rightarrow> metrics" where
  "thread_result thread_ids m =
     (if thread_ids \<noteq> [] then
        (let thread_counts = counter thread_ids;
             m1 = m(''unique_threads'' \<mapsto> MInt (int (length thread_counts)),
                    ''total_thread_items'' \<mapsto> MInt (int (length thread_ids)))
         in if thread_counts \<noteq> [] then
              (let counts = map snd thread_counts;
                   m2 = m1(''avg_items_per_thread'' \<mapsto>
                             MReal (real (sum_list counts) / real (length counts)))
               in case m2 ''total_items'' of
                    Some (MInt n) \<Rightarrow>
                      (if n \<noteq> 0 then
                         m2(''thread_coverage_breadth'' \<mapsto>
                              MReal (real (length thread_counts) / real_of_int n))
                       else m2)
                  | _ \<Rightarrow> m2)
            else m1)
      else m)"

definition analyze_threads ::
  "(string \<Rightarrow> string \<Rightarrow> string option) \<Rightarrow> (json \<Rightarrow> string) \<Rightarrow> metrics \<Rightarrow> item list
     \<Rightarrow> error + metrics" where
  "analyze_threads re_search rp m items =
     (case collect_thread_ids re_search rp items of
        Inl e \<Rightarrow> Inl e
      | Inr thread_ids \<Rightarrow> Inr (thread_result thread_ids m))"


subsection \<open>Files and \<^verbatim>\<open>_load_jsonl\<close>\<close>

text \<open>
  A path is its text, and the file system maps the paths that exist to what reading them
  gives: \<open>Readable ls\<close> yields the lines \<open>ls\<close> of the file; \<open>Failing ls lost\<close> yields the lines
  \<open>ls\<close> and then raises, and the lines \<open>lost\<close> of the file are never yielded (a directory
  or an unreadable file raises at \<^verbatim>\<open>open\<close>; an undecodable byte raises when its block is
  read, before the lines of that block are yielded). \<open>path_name\<close> and \<open>path_suffix\<close> are
  \<^verbatim>\<open>Path.name\<close> and \<^verbatim>\<open>Path.suffix\<close>.
\<close>

datatype fentry = Readable "string list" | Failing "string list" "string list"

type_synonym filesystem = "string \<rightharpoonup> fentry"

definition path_name :: "string \<Rightarrow> string" where
  "path_name p = rev (takeWhile (\<lambda>c. c \<noteq> CHR ''/'') (rev p))"

definition path_suffix :: "string \<Rightarrow> string" where
  "path_suffix p =
     (let name = path_name p;
          ext = rev (takeWhile (\<lambda>c. c \<noteq> CHR ''.'') (rev name))
      in if CHR ''.'' \<in> set name \<and> length ext + 1 < length name \<and> ext \<noteq> []
         then CHR ''.'' # ext else [])"

text \<open>
  \<open>loads line\<close> is \<^verbatim>\<open>json.loads(line)\<close>. It returns a value, or raises
  \<^verbatim>\<open>JSONDecodeError\<close> on a malformed line, or raises another exception: \<^verbatim>\<open>RecursionError\<close>
  on a line nested too deeply, \<^verbatim>\<open>ValueError\<close> on an integer of more digits than the
  interpreter converts. The loader itself does not look at what a line parses to.
\<close>

datatype 'j load_result = Loaded 'j | JSONDecodeError | Raised error

text \<open>
  The loop over the lines, with \<^verbatim>\<open>except json.JSONDecodeError: continue\<close> around each
  line: the items appended, and the exception that left the loop, if one did.
\<close>

fun parse_lines :: "(string \<Rightarrow> 'j load_result) \<Rightarrow> string list \<Rightarrow> 'j list \<times> error option" where
  "parse_lines loads [] = ([], None)"
| "parse_lines loads (line # lines) =
     (case loads line of
        Loaded j \<Rightarrow> (case parse_lines loads lines of (items, e) \<Rightarrow> (j # items, e))
      | JSONDecodeError \<Rightarrow> parse_lines loads lines
      | Raised e \<Rightarrow> ([], Some e))"

text \<open>
  \<^verbatim>\<open>_load_jsonl\<close>: the outer \<^verbatim>\<open>except Exception: pass\<close> swallows what leaves the loop and
  what \<^verbatim>\<open>open\<close> or the reading raises, and the items appended so far are returned.
\<close>

definition load_jsonl :: "(string \<Rightarrow> 'j load_result) \<Rightarrow> filesystem \<Rightarrow> string \<Rightarrow> 'j list" where
  "load_jsonl loads fs file_path =
     (case fs file_path of
        None \<Rightarrow> []
      | Some (Readable ls) \<Rightarrow> fst (parse_lines loads ls)
      | Some (Failing ls lost) \<Rightarrow> fst (parse_lines loads ls))"

subsection \<open>\<^verbatim>\<open>MetricsAnalyzer.calculate_all_metrics\<close>\<close>

text \<open>
  The library functions the analyzers call, as parameters. The analyzers are typed over
  dicts (\<^verbatim>\<open>JsonItem = dict[str, Any]\<close>), so a line on which \<^verbatim>\<open>json.loads\<close> returns is taken
  to parse to a JSON object.
\<close>

record 'h pylib =
  json_loads :: "string \<Rightarrow> item load_result"
  url_netloc :: "string \<Rightarrow> string option"
  re_group :: "string \<Rightarrow> string \<Rightarrow> string option"
  py_repr :: "json \<Rightarrow> string"
  md5_hexdigest :: "string \<Rightarrow> 'h"

text \<open>
  The loop over the output files. Of \<^verbatim>\<open>file_stats\<close> only the number of keys is read,
  so the state keeps its keys (the file names).
\<close>

record gather_acc =
  all_items :: "item list"
  file_stats :: "string list"

definition gather_step :: "(string \<Rightarrow> item load_result) \<Rightarrow> filesystem \<Rightarrow> gather_acc \<Rightarrow> string \<Rightarrow> gather_acc" where
  "gather_step loads fs st file_path =
     (if fs file_path = None then st
      else if path_suffix file_path \<noteq> ''.jsonl'' then st
      else
        (let items = load_jsonl loads fs file_path in
         if items \<noteq> [] then
           st\<lparr>all_items := all_items st @ items,
              file_stats := (if path_name file_path \<in> set (file_stats st) then file_stats st
                             else file_stats st @ [path_name file_path])\<rparr>
         else st))"

definition gather :: "(string \<Rightarrow> item load_result) \<Rightarrow> filesystem \<Rightarrow> string list \<Rightarrow> gather_acc" where
  "gather loads fs output_files =
     foldl (gather_step loads fs) \<lparr>all_items = [], file_stats = []\<rparr> output_files"

definition calculate_all_metrics :: "'h pylib \<Rightarrow> filesystem \<Rightarrow> string list \<Rightarrow> error + metrics" where
  "calculate_all_metrics lib fs output_files =
     (let st = gather (json_loads lib) fs output_files; items = all_items st in
      if items = [] then Inr Map.empty
      else
        (let m0 = [''total_items'' \<mapsto> MInt (int (length items)),
                   ''files_analyzed'' \<mapsto> MInt (int (length (file_stats st)))];
             m1 = analyze_text_content m0 items
         in case analyze_urls (url_netloc lib) m1 items of
              Inl e \<Rightarrow> Inl e
            | Inr m2 \<Rightarrow>
                (let m3 = analyze_identifiers (py_repr lib) m2 items;
                     m4 = analyze_authors (py_repr lib) m3 items
                 in case analyze_threads (re_group lib) (py_repr lib) m4 items of
                      Inl e \<Rightarrow> Inl e
                    | Inr m5 \<Rightarrow> Inr (analyze_temporal_data m5 items))))"

section \<open>Resource sampling (\<^verbatim>\<open>metrics.py\<close>)\<close>

definition BYTES_PER_MB :: nat where
  "BYTES_PER_MB = 1024 * 1024"

record collector =
  collector_name :: string
  scenario_name :: string
  log_file :: string
  start_time :: "real option"
  target_process :: "nat option"
  peak_memory :: real
  cpu_samples :: "real list"

definition new_collector :: "string \<Rightarrow> string \<Rightarrow> collector" where
  "new_collector cn sn =
     \<lparr>collector_name = cn, scenario_name = sn, log_file = [], start_time = None,
      target_process = None, peak_memory = 0, cpu_samples = []\<rparr>"

definition start :: "collector \<Rightarrow> real \<Rightarrow> collector" where
  "start c now = c\<lparr>start_time := Some now\<rparr>"

text \<open>
  What \<^verbatim>\<open>psutil\<close> answers when the collector attaches: \<^verbatim>\<open>psutil.Process(pid)\<close> raises
  (\<open>NoProcess\<close>), or it returns and the first \<^verbatim>\<open>cpu_percent\<close> raises (\<open>NoCpu\<close>, the
  process object stays assigned), or both succeed.
\<close>

datatype attach_outcome = NoProcess | NoCpu | Attached

definition attach_to_process :: "collector \<Rightarrow> nat \<Rightarrow> attach_outcome \<Rightarrow> collector" where
  "attach_to_process c process_id outcome =
     (case outcome of
        NoProcess \<Rightarrow> c
      | NoCpu \<Rightarrow> c\<lparr>target_process := Some process_id\<rparr>
      | Attached \<Rightarrow> c\<lparr>target_process := Some process_id\<rparr>)"

text \<open>
  What \<^verbatim>\<open>psutil\<close> answers during one \<^verbatim>\<open>sample()\<close>: the resident set size of the process
  in bytes, the list of its descendants with the resident set size of each, and the CPU
  percentage; \<open>None\<close> where the call raises \<^verbatim>\<open>NoSuchProcess\<close> or \<^verbatim>\<open>AccessDenied\<close>.
\<close>

record probe =
  rss :: "nat option"
  children :: "nat option list option"
  cpu_percent :: "real option"

definition child_mb :: "nat option \<Rightarrow> real" where
  "child_mb child = (case child of None \<Rightarrow> 0 | Some child_rss \<Rightarrow> real child_rss / real BYTES_PER_MB)"

definition memory_mb :: "probe \<Rightarrow> nat \<Rightarrow> real" where
  "memory_mb p r =
     real r / real BYTES_PER_MB
       + (case children p of None \<Rightarrow> 0 | Some cs \<Rightarrow> sum_list (map child_mb cs))"

definition sample :: "collector \<Rightarrow> probe \<Rightarrow> collector" where
  "sample c p =
     (case target_process c of
        None \<Rightarrow> c
      | Some process_id \<Rightarrow>
          (case rss p of
             None \<Rightarrow> c
           | Some r \<Rightarrow>
               (let c1 = c\<lparr>peak_memory := max (peak_memory c) (memory_mb p r)\<rparr> in
                case cpu_percent p of
                  None \<Rightarrow> c1
                | Some cpu \<Rightarrow>
                    (if cpu \<noteq> 0 \<and> 0 < cpu then c1\<lparr>cpu_samples := cpu_samples c1 @ [cpu]\<rparr>
                     else c1))))"

record benchmark_metrics =
  total_runtime_seconds :: real
  items_extracted :: int
  items_per_second :: real
  peak_memory_mb :: real
  avg_cpu_percent :: real
  success :: bool
  bm_collector_name :: string
  bm_scenario_name :: string
  timestamp :: string
  bm_log_file :: string

text \<open>\<open>now\<close> is \<^verbatim>\<open>time.time()\<close> and \<open>stamp\<close> is \<^verbatim>\<open>time.strftime(TIMESTAMP_FORMAT_HUMAN)\<close>.\<close>

definition stop :: "collector \<Rightarrow> int \<Rightarrow> bool \<Rightarrow> real \<Rightarrow> string \<Rightarrow> error + benchmark_metrics" where
  "stop c items_count ok now stamp =
     (case start_time c of
        None \<Rightarrow> Inl RuntimeError
      | Some t0 \<Rightarrow>
          (let runtime = now - t0 in
           Inr \<lparr>total_runtime_seconds = runtime,
                items_extracted = items_count,
                items_per_second = (if 0 < runtime then real_of_int items_count / runtime else 0),
                peak_memory_mb = peak_memory c,
                avg_cpu_percent =
                  (if cpu_samples c \<noteq> []
                   then sum_list (cpu_samples c) / real (length (cpu_samples c)) else 0),
                success = ok,
                bm_collector_name = collector_name c,
                bm_scenario_name = scenario_name c,
                timestamp = stamp,
                bm_log_file = log_file c\<rparr>))"


section \<open>The benchmark runner (\<^verbatim>\<open>runner.py\<close>)\<close>

subsection \<open>\<^verbatim>\<open>_run_process\<close>\<close>

text \<open>
  The supervised process is seen through what each iteration of the polling loop observes:
  the answer of \<^verbatim>\<open>process.poll()\<close> (\<open>None\<close> while the process runs), the reading
  \<^verbatim>\<open>time.time() - start_time\<close>, and what \<^verbatim>\<open>psutil\<close> answers to the sample. The loop is run
  on a list of such observations; it has not returned when the list ends before the
  process exits or the timeout passes, and the result is then \<open>None\<close>. Beside the exit
  code and the collector, the result tells whether the loop called \<^verbatim>\<open>process.kill()\<close>.
\<close>

record tick =
  poll :: "int option"
  elapsed :: real
  observed :: probe

fun poll_loop :: "int \<Rightarrow> collector \<Rightarrow> tick list \<Rightarrow> (int \<times> bool \<times> collector) option" where
  "poll_loop timeout_seconds c [] = None"
| "poll_loop timeout_seconds c (t # ts) =
     (case poll t of
        Some exit_code \<Rightarrow> Some (exit_code, False, c)
      | None \<Rightarrow>
          (if real_of_int timeout_seconds < elapsed t then Some (- 1, True, c)
           else poll_loop timeout_seconds (sample c (observed t)) ts))"

definition run_process ::
  "collector \<Rightarrow> nat \<Rightarrow> attach_outcome \<Rightarrow> int \<Rightarrow> tick list
     \<Rightarrow> (int \<times> bool \<times> collector) option" where
  "run_process c process_id outcome timeout_seconds ts =
     poll_loop timeout_seconds (attach_to_process c process_id outcome) ts"

subsection \<open>\<^verbatim>\<open>_count_items_in_jsonl\<close> and \<^verbatim>\<open>_add_quality_metrics\<close>\<close>

definition count_items_in_jsonl :: "filesystem \<Rightarrow> string \<Rightarrow> nat" where
  "count_items_in_jsonl fs filepath =
     (case fs filepath of
        Some (Readable ls) \<Rightarrow> length ls
      | Some (Failing ls lost) \<Rightarrow> 0
      | None \<Rightarrow> 0)"

text \<open>
  The items read for the enhanced metrics. The file is opened without a test that it
  exists, and an error of \<^verbatim>\<open>open\<close> or of reading, or an exception of \<^verbatim>\<open>json.loads\<close> other
  than \<^verbatim>\<open>JSONDecodeError\<close>, leaves the whole \<^verbatim>\<open>try\<close> block.
\<close>

fun read_posts ::
  "(string \<Rightarrow> item load_result) \<Rightarrow> filesystem \<Rightarrow> string list \<Rightarrow> error + item list" where
  "read_posts loads fs [] = Inr []"
| "read_posts loads fs (file_path # file_paths) =
     (if path_suffix file_path = ''.jsonl'' \<and> contains ''posts'' (path_name file_path) then
        (case fs file_path of
           Some (Readable ls) \<Rightarrow>
             (case parse_lines loads ls of
                (found, Some e) \<Rightarrow> Inl e
              | (found, None) \<Rightarrow>
                  (case read_posts loads fs file_paths of
                     Inl e \<Rightarrow> Inl e
                   | Inr items \<Rightarrow> Inr (found @ items)))
         | Some (Failing ls lost) \<Rightarrow>
             (case parse_lines loads ls of
                (found, Some e) \<Rightarrow> Inl e
              | (found, None) \<Rightarrow> Inl OSError)
         | None \<Rightarrow> Inl OSError)
      else read_posts loads fs file_paths)"

text \<open>\<open>MError e\<close> stands for the message \<^verbatim>\<open>str(e)\<close> of the exception caught.\<close>

definition add_enhanced :: "'h pylib \<Rightarrow> filesystem \<Rightarrow> metrics \<Rightarrow> string list \<Rightarrow> metrics" where
  "add_enhanced lib fs result_dict output_files =
     (if output_files \<noteq> [] then
        (case read_posts (json_loads lib) fs output_files of
           Inl e \<Rightarrow> result_dict(''enhanced_metrics_error'' \<mapsto> MError e)
         | Inr items \<Rightarrow>
             (if items \<noteq> [] then
                (case enhanced_calculate_all_metrics (md5_hexdigest lib) items of
                   Inl e \<Rightarrow> result_dict(''enhanced_metrics_error'' \<mapsto> MError e)
                 | Inr em \<Rightarrow> result_dict(''enhanced_metrics'' \<mapsto> MEnhanced em))
              else result_dict))
      else result_dict)"

text \<open>\<^verbatim>\<open>quality_metrics.get(key, 0)\<close>, for the keys that hold counts.\<close>

definition get_count :: "metrics \<Rightarrow> string \<Rightarrow> int" where
  "get_count m k = (case m k of Some (MInt n) \<Rightarrow> n | _ \<Rightarrow> 0)"

definition add_throughput :: "metrics \<Rightarrow> metrics \<Rightarrow> real \<Rightarrow> metrics" where
  "add_throughput quality_metrics result_dict runtime_seconds =
     (if 0 < runtime_seconds then
        (let total_items = get_count quality_metrics ''total_items'';
             d1 = (if 0 < total_items
                   then result_dict(''items_per_second'' \<mapsto>
                          MReal (real_of_int total_items / runtime_seconds))
                   else result_dict);
             n_text = get_count quality_metrics ''items_with_text''
         in if 0 < n_text
            then d1(''text_items_per_second'' \<mapsto> MReal (real_of_int n_text / runtime_seconds))
            else d1)
      else result_dict)"

definition add_quality_metrics ::
  "'h pylib \<Rightarrow> filesystem \<Rightarrow> metrics \<Rightarrow> string list \<Rightarrow> real \<Rightarrow> error + metrics" where
  "add_quality_metrics lib fs result_dict output_files runtime_seconds =
     (case calculate_all_metrics lib fs output_files of
        Inl e \<Rightarrow> Inl e
      | Inr quality_metrics \<Rightarrow>
          Inr (add_throughput quality_metrics
                 (add_enhanced lib fs (result_dict ++ quality_metrics) output_files)
                 runtime_seconds))"

subsection \<open>\<^verbatim>\<open>_execute_benchmark\<close>\<close>

definition model_dump :: "benchmark_metrics \<Rightarrow> metrics" where
  "model_dump r =
     [''total_runtime_seconds'' \<mapsto> MReal (total_runtime_seconds r),
      ''items_extracted'' \<mapsto> MInt (items_extracted r),
      ''items_per_second'' \<mapsto> MReal (items_per_second r),
      ''peak_memory_mb'' \<mapsto> MReal (peak_memory_mb r),
      ''avg_cpu_percent'' \<mapsto> MReal (avg_cpu_percent r),
      ''success'' \<mapsto> MBool (success r),
      ''collector_name'' \<mapsto> MStr (bm_collector_name r),
      ''scenario_name'' \<mapsto> MStr (bm_scenario_name r),
      ''timestamp'' \<mapsto> MStr (timestamp r),
      ''log_file'' \<mapsto> MStr (bm_log_file r)]"

text \<open>
  One run, as the runner meets it: the process id and what attaching to it gives, the
  observations of the polling loop, the files found after the process has ended, the
  clock read by \<^verbatim>\<open>metrics.start()\<close> and by \<^verbatim>\<open>metrics.stop()\<close>, and the two formatted
  time stamps. Saving the result document and printing the summary follow the
  computation of the document and are not modelled.
\<close>

record run_env =
  process_id :: nat
  attach :: attach_outcome
  ticks :: "tick list"
  files_after :: filesystem
  started_at :: real
  stopped_at :: real
  file_stamp :: string
  human_stamp :: string

definition count_existing :: "filesystem \<Rightarrow> string list \<Rightarrow> nat" where
  "count_existing fs output_files =
     sum_list (map (count_items_in_jsonl fs) (filter (\<lambda>f. fs f \<noteq> None) output_files))"

definition report ::
  "'h pylib \<Rightarrow> run_env \<Rightarrow> string list \<Rightarrow> int \<Rightarrow> collector \<Rightarrow> error + metrics" where
  "report lib env output_files exit_code c =
     (let items_count = int (count_existing (files_after env) output_files);
          ok = (exit_code = 0)
      in case stop c items_count ok (stopped_at env) (human_stamp env) of
           Inl e \<Rightarrow> Inl e
         | Inr result \<Rightarrow>
             (if ok
              then add_quality_metrics lib (files_after env) (model_dump result) output_files
                     (total_runtime_seconds result)
              else Inr (model_dump result)))"

text \<open>The collector \<^verbatim>\<open>_execute_benchmark\<close> creates, names the log file in, and starts.\<close>

definition started_collector :: "string \<Rightarrow> run_env \<Rightarrow> string \<Rightarrow> string \<Rightarrow> collector" where
  "started_collector logs_dir env cname sname =
     start ((new_collector cname sname)
              \<lparr>log_file := logs_dir @ ''/'' @ cname @ ''_'' @ file_stamp env @ ''.log''\<rparr>)
       (started_at env)"

definition execute_benchmark ::
  "'h pylib \<Rightarrow> string \<Rightarrow> run_env \<Rightarrow> string list \<Rightarrow> string \<Rightarrow> string \<Rightarrow> int
     \<Rightarrow> (error + metrics) option" where
  "execute_benchmark lib logs_dir env output_files cname sname timeout_seconds =
     (case run_process (started_collector logs_dir env cname sname) (process_id env) (attach env)
             timeout_seconds (ticks env) of
        None \<Rightarrow> None
      | Some (exit_code, killed, c) \<Rightarrow> Some (report lib env output_files exit_code c))"

section \<open>Notions used to state the properties\<close>

text \<open>
  The record a line loads to, if it loads, and whether \<^verbatim>\<open>json.loads\<close> raises on it an
  exception that is not \<^verbatim>\<open>JSONDecodeError\<close>.
\<close>

definition record_of :: "'j load_result \<Rightarrow> 'j option" where
  "record_of r = (case r of Loaded j \<Rightarrow> Some j | JSONDecodeError \<Rightarrow> None | Raised e \<Rightarrow> None)"

definition raises :: "'j load_result \<Rightarrow> bool" where
  "raises r = (case r of Loaded j \<Rightarrow> False | JSONDecodeError \<Rightarrow> False | Raised e \<Rightarrow> True)"

definition malformed :: "'j load_result \<Rightarrow> bool" where
  "malformed r = (case r of Loaded j \<Rightarrow> False | JSONDecodeError \<Rightarrow> True | Raised e \<Rightarrow> False)"

text \<open>
  The collector after a sequence of samples, and the memory sums those samples observed:
  a sample observes a sum when the resident set size of the process itself can be read.
\<close>

definition run_samples :: "collector \<Rightarrow> probe list \<Rightarrow> collector" where
  "run_samples c ps = foldl sample c ps"

definition observed_memory :: "probe list \<Rightarrow> real list" where
  "observed_memory ps =
     concat (map (\<lambda>p. case rss p of None \<Rightarrow> [] | Some r \<Rightarrow> [memory_mb p r]) ps)"

text \<open>
  The keys \<^verbatim>\<open>MetricsAnalyzer\<close> writes into its metrics: those of the text analyzer, those
  of the analyzers that run after it, and the two totals.
\<close>

definition text_metric_keys :: "string set" where
  "text_metric_keys =
     {''items_with_text'', ''items_missing_text'', ''non_trivial_text_rate'', ''avg_text_length'',
      ''total_text_chars'', ''avg_posts_text_length'', ''posts_count'', ''avg_pages_text_length'',
      ''pages_count'', ''min_text_length'', ''max_text_length'', ''median_text_length'',
      ''text_length_p25'', ''text_length_p75''}"

definition later_keys :: "string set" where
  "later_keys =
     {''unique_page_urls'', ''unique_thread_urls'', ''total_url_mentions'',
      ''unique_urls_combined'', ''unique_domains'', ''top_domains'', ''url_patterns'',
      ''items_with_ids'', ''unique_ids'', ''duplicate_items'', ''duplication_rate'',
      ''items_with_authors'', ''unique_authors'', ''items_per_author'',
      ''unique_threads'', ''total_thread_items'', ''avg_items_per_thread'',
      ''thread_coverage_breadth'', ''items_with_dates'', ''temporal_coverage''}"

definition quality_keys :: "string set" where
  "quality_keys = {''total_items'', ''files_analyzed''} \<union> text_metric_keys \<union> later_keys"

text \<open>
  Three samples of one run: the process with two children (one of them gone when it is
  read), a sample at which the process cannot be read, and the process alone.
\<close>

definition example_probes :: "probe list" where
  "example_probes =
     [\<lparr>rss = Some (2 * 1048576), children = Some [Some 1048576, None], cpu_percent = Some 12\<rparr>,
      \<lparr>rss = None, children = None, cpu_percent = None\<rparr>,
      \<lparr>rss = Some 1048576, children = None, cpu_percent = Some 0\<rparr>]"

text \<open>
  What the library functions return on the strings of the examples below (the lines of the
  example files, their urls); the tables are used on these strings only. The one line of
  the examples longer than 100000 characters is nested too deeply for \<^verbatim>\<open>json.loads\<close>, and
  \<^verbatim>\<open>urlparse\<close> raises on the url with the unclosed bracket. The example texts are pairwise
  different, so a hash without collisions stands for their digests.
\<close>

definition example_loads :: "string \<Rightarrow> item load_result" where
  \<open>example_loads line =
     (if 100000 < length line then Raised RecursionError
      else if line = ''{}'' then Loaded []
      else if line = ''{"text": "hi"}'' then Loaded [(''text'', JStr ''hi'')]
      else if line = ''{"url": 5}'' then Loaded [(''url'', JInt 5)]
      else if line = ''{"url": "http://[bad"}'' then Loaded [(''url'', JStr ''http://[bad'')]
      else if line = ''{"url": "https://forum.example/threads/42/page-2", "author": "amira"}''
        then Loaded [(''url'', JStr ''https://forum.example/threads/42/page-2''),
                     (''author'', JStr ''amira'')]
      else JSONDecodeError)\<close>

definition example_netloc :: "string \<Rightarrow> string option" where
  "example_netloc url =
     (if url = ''http://[bad'' then None
      else if url = ''https://forum.example/threads/42/page-2'' then Some ''forum.example''
      else Some [])"

definition example_re :: "string \<Rightarrow> string \<Rightarrow> string option" where
  "example_re pattern s =
     (if pattern = hd THREAD_ID_PATTERNS \<and> s = ''https://forum.example/threads/42/page-2''
      then Some ''42'' else None)"

definition example_lib :: "string pylib" where
  "example_lib =
     \<lparr>json_loads = example_loads, url_netloc = example_netloc, re_group = example_re,
      py_repr = (\<lambda>v. []), md5_hexdigest = (\<lambda>s. s)\<rparr>"

text \<open>
  Example runs with a timeout of 300 seconds. The first process is still running after
  half a second and has exited with code 0 when it is polled again after 300.7 seconds;
  the second is still running at that time; the third exits with code 3 at once.
\<close>

definition quiet_probe :: probe where
  "quiet_probe = \<lparr>rss = Some 1048576, children = Some [], cpu_percent = Some 0\<rparr>"

definition running_tick :: tick where
  "running_tick = \<lparr>poll = None, elapsed = 1 / 2, observed = quiet_probe\<rparr>"

definition late_exit_tick :: tick where
  "late_exit_tick = \<lparr>poll = Some 0, elapsed = 3007 / 10, observed = quiet_probe\<rparr>"

definition late_running_tick :: tick where
  "late_running_tick = \<lparr>poll = None, elapsed = 3007 / 10, observed = quiet_probe\<rparr>"

definition failed_tick :: tick where
  "failed_tick = \<lparr>poll = Some 3, elapsed = 1 / 10, observed = quiet_probe\<rparr>"

definition example_env :: "tick list \<Rightarrow> filesystem \<Rightarrow> run_env" where
  "example_env ts fs =
     \<lparr>process_id = 4242, attach = Attached, ticks = ts, files_after = fs,
      started_at = 100, stopped_at = 401, file_stamp = ''20240101_120000'',
      human_stamp = ''2024-01-01 12:05:01''\<rparr>"

text \<open>
  The files of the examples: an output file of three lines, the second of them malformed,
  and a file of two lines whose reading fails after its first line. No other path exists.
\<close>

definition example_files :: filesystem where
  \<open>example_files =
     [''data/run_posts.jsonl'' \<mapsto> Readable [''{}'', ''not json'', ''{"text": "hi"}''],
      ''data/broken.jsonl'' \<mapsto> Failing [''{}''] [''{}'']]\<close>

text \<open>
  The lengths of the texts of the records that have one, in the order of the records, and
  the records whose text is not trivial.
\<close>

definition text_lens :: "item list \<Rightarrow> nat list" where
  "text_lens items =
     map length (filter (\<lambda>t. t \<noteq> []) (map (\<lambda>it. extract_text it TEXT_FIELDS) items))"

definition nontrivial_lens :: "item list \<Rightarrow> nat list" where
  "nontrivial_lens items = filter (\<lambda>n. MIN_NONTRIVIAL_TEXT_LENGTH \<le> n) (text_lens items)"

text \<open>Four records with texts of 30, 10, 40 and 20 characters, and one without text.\<close>

definition example_text_items :: "item list" where
  "example_text_items =
     [[(''text'', JStr (replicate 30 CHR ''x''))],
      [(''id'', JInt 7), (''body'', JStr (replicate 10 CHR ''x''))],
      [(''text'', JStr ''  ''), (''content'', JStr (replicate 40 CHR ''x''))],
      [(''id'', JInt 8)],
      [(''summary'', JStr (replicate 20 CHR ''x''))]]"

text \<open>
  The value the thread analyzer hands to \<^verbatim>\<open>re.search\<close> and the crawl analyzer tests for
  \<^verbatim>\<open>"/threads/"\<close>, and the records on which each analyzer raises nothing: the thread
  analyzer needs that value to be a string when one of the two keys is present; the url
  analyzer needs \<^verbatim>\<open>urlparse\<close> to accept every string under a url field, and asks nothing
  of the values that are not strings.
\<close>

definition is_str :: "json \<Rightarrow> bool" where
  "is_str v = (case v of JStr s \<Rightarrow> True | _ \<Rightarrow> False)"

definition thread_url_value :: "item \<Rightarrow> json" where
  "thread_url_value it = py_or (get it ''thread_url'') (get_default it ''url'' (JStr []))"

definition threads_accepts :: "item \<Rightarrow> bool" where
  "threads_accepts it =
     (if has_key it ''thread_url'' \<or> has_key it ''url'' then is_str (thread_url_value it) else True)"

definition netloc_accepts :: "(string \<Rightarrow> string option) \<Rightarrow> item \<Rightarrow> bool" where
  "netloc_accepts netloc it =
     list_all (\<lambda>k. case map_of it k of Some (JStr u) \<Rightarrow> netloc u \<noteq> None | _ \<Rightarrow> True) URL_FIELDS"

text \<open>A record whose \<^verbatim>\<open>url\<close> and \<^verbatim>\<open>thread_url\<close>, where present, are strings.\<close>

definition url_values_strings :: "item \<Rightarrow> bool" where
  "url_values_strings it =
     list_all (\<lambda>k. case map_of it k of Some v \<Rightarrow> is_str v | None \<Rightarrow> True) [''url'', ''thread_url'']"

text \<open>A value that is neither a string nor a container: a number, a bool or \<^verbatim>\<open>None\<close>.\<close>

definition is_plain_nonstr :: "json \<Rightarrow> bool" where
  "is_plain_nonstr v =
     (case v of JNull \<Rightarrow> True | JBool b \<Rightarrow> True | JInt i \<Rightarrow> True | JFloat r \<Rightarrow> True | _ \<Rightarrow> False)"

text \<open>
  The value of a key in the report of a run: \<open>None\<close> when the run gave no report or the
  report has no such key. The wall-clock runtime of a run, and the items its analysis
  reads.
\<close>

definition report_value :: "(error + metrics) option \<Rightarrow> string \<Rightarrow> mval option" where
  "report_value res k = (case res of Some (Inr r) \<Rightarrow> r k | _ \<Rightarrow> None)"

definition runtime :: "run_env \<Rightarrow> real" where
  "runtime env = stopped_at env - started_at env"

definition analysed_items :: "'h pylib \<Rightarrow> run_env \<Rightarrow> string list \<Rightarrow> item list" where
  "analysed_items lib env output_files =
     all_items (gather (json_loads lib) (files_after env) output_files)"


text \<open>
  An output file whose only record has a number for its url, and a record of a forum page
  whose url is a string.
\<close>

definition number_url_files :: filesystem where
  \<open>number_url_files = [''data/pages.jsonl'' \<mapsto> Readable [''{"url": 5}'']]\<close>

definition forum_item :: item where
  "forum_item =
     [(''url'', JStr ''https://forum.example/threads/42/page-2''), (''author'', JStr ''amira'')]"

text \<open>A run over the same files whose clock reads the same at the start and at the stop.\<close>

definition instant_env :: run_env where
  "instant_env =
     \<lparr>process_id = 4242, attach = Attached,
      ticks = [\<lparr>poll = Some 0, elapsed = 0, observed = quiet_probe\<rparr>],
      files_after = example_files, started_at = 100, stopped_at = 100,
      file_stamp = ''20240101_120000'', human_stamp = ''2024-01-01 12:00:00''\<rparr>"


text \<open>
  The values the duplication analyzer reads from a record, the records on which it raises
  nothing (an id that is used can be hashed, a text that is used is a string), and the
  ids and content hashes it collects from such records, in the order of the records.
\<close>

definition post_id_of :: "item \<Rightarrow> json" where
  "post_id_of it = py_or (get it ''post_id'') (get it ''id'')"

definition text_of :: "item \<Rightarrow> json" where
  "text_of it = get_default it ''text'' (JStr [])"

definition dup_accepts :: "item \<Rightarrow> bool" where
  "dup_accepts it =
     ((if truthy (post_id_of it) then hash_key (post_id_of it) \<noteq> None else True)
      \<and> (if truthy (text_of it) then is_str (text_of it) else True))"

definition item_ids :: "item list \<Rightarrow> hkey list" where
  "item_ids items =
     concat (map (\<lambda>it. if truthy (post_id_of it)
                        then (case hash_key (post_id_of it) of Some k \<Rightarrow> [k] | None \<Rightarrow> [])
                        else []) items)"

definition item_hashes :: "(string \<Rightarrow> 'h) \<Rightarrow> item list \<Rightarrow> 'h list" where
  "item_hashes md5 items =
     concat (map (\<lambda>it. case text_of it of
                          JStr s \<Rightarrow> (if s \<noteq> [] then [md5 s] else [])
                        | _ \<Rightarrow> []) items)"

text \<open>
  The \<^verbatim>\<open>author\<close> values that are not \<^verbatim>\<open>None\<close>, which the author coverage analyzer counts,
  and whether a value can be a member of a set.
\<close>

definition author_values :: "item list \<Rightarrow> json list" where
  "author_values items = filter (\<lambda>v. v \<noteq> JNull) (map (\<lambda>it. get it ''author'') items)"

definition hashable :: "json \<Rightarrow> bool" where
  "hashable v = (hash_key v \<noteq> None)"

text \<open>The loop variables of the duplication analyzer after a list of records it accepts.\<close>

definition dup_final :: "(string \<Rightarrow> 'h) \<Rightarrow> item list \<Rightarrow> 'h dup_acc" where
  "dup_final md5 items =
     \<lparr>post_ids = item_ids items,
      content_hashes = item_hashes md5 items,
      duplicate_count = length (item_hashes md5 items) - card (set (item_hashes md5 items)),
      unique_posts = set (item_hashes md5 items)\<rparr>"

text \<open>
  Three posts, two of them with the same id and the same text, and the same posts in
  another order.
\<close>

definition three_posts :: "item list" where
  "three_posts =
     [[(''id'', JStr ''a''), (''text'', JStr ''hi'')],
      [(''id'', JStr ''a''), (''text'', JStr ''hi'')],
      [(''id'', JStr ''b''), (''text'', JStr ''bye'')]]"

definition three_posts_reordered :: "item list" where
  "three_posts_reordered =
     [[(''id'', JStr ''b''), (''text'', JStr ''bye'')],
      [(''id'', JStr ''a''), (''text'', JStr ''hi'')],
      [(''id'', JStr ''a''), (''text'', JStr ''hi'')]]"

text \<open>
  An entry of the metrics that is a rate: absent, or a number from 0 to 1.
\<close>

definition unit_rate :: "mval option \<Rightarrow> bool" where
  "unit_rate e = (case e of None \<Rightarrow> True | Some (MReal x) \<Rightarrow> 0 \<le> x \<and> x \<le> 1 | Some v \<Rightarrow> False)"

text \<open>
  Records on which the duplication rates of the duplication analyzer leave the range
  from 0 to 1: three posts with the same text and no id beside one post with an id and no
  text, and a post with an id and a text beside a post with another text and no id.
\<close>

definition repeated_text_items :: "item list" where
  "repeated_text_items =
     [[(''text'', JStr ''a'')], [(''text'', JStr ''a'')], [(''text'', JStr ''a'')],
      [(''id'', JStr ''x'')]]"

definition text_without_id_items :: "item list" where
  "text_without_id_items =
     [[(''id'', JStr ''x''), (''text'', JStr ''a'')], [(''text'', JStr ''b'')]]"

text \<open>
  A line of 100000 opening and 100000 closing brackets, on which \<^verbatim>\<open>json.loads\<close> raises
  \<^verbatim>\<open>RecursionError\<close>, a file with that line before a well-formed one, and a file whose
  only record has a url that \<^verbatim>\<open>urlparse\<close> rejects.
\<close>

definition deep_line :: string where
  "deep_line = replicate 100000 CHR ''['' @ replicate 100000 CHR '']''"

definition deep_files :: filesystem where
  "deep_files = [''data/deep.jsonl'' \<mapsto> Readable [deep_line, ''{}'']]"

definition bad_host_files :: filesystem where
  \<open>bad_host_files = [''data/pages.jsonl'' \<mapsto> Readable [''{"url": "http://[bad"}'']]\<close>

section \<open>Properties\<close>

subsection \<open>Resource sampling\<close>

lemma sample_target: "target_process (sample c p) = target_process c"
  by (simp add: sample_def Let_def split: option.splits)

lemma sample_unattached: "target_process c = None \<Longrightarrow> sample c p = c"
  by (simp add: sample_def)

lemma sample_peak:
  "target_process c = Some pid \<Longrightarrow>
   peak_memory (sample c p) =
     (case rss p of None \<Rightarrow> peak_memory c | Some r \<Rightarrow> max (peak_memory c) (memory_mb p r))"
  by (simp add: sample_def Let_def split: option.splits)

lemma sample_peak_mono: "peak_memory c \<le> peak_memory (sample c p)"
  by (simp add: sample_def Let_def split: option.splits)

lemma run_samples_peak:
  "target_process c = Some pid \<Longrightarrow>
   peak_memory (run_samples c ps) = Max (insert (peak_memory c) (set (observed_memory ps)))"
proof (induction ps arbitrary: c)
  case Nil
  then show ?case by (simp add: run_samples_def observed_memory_def)
next
  case (Cons p ps)
  have t: "target_process (sample c p) = Some pid"
    using Cons.prems by (simp add: sample_target)
  have step: "peak_memory (run_samples (sample c p) ps)
      = Max (insert (peak_memory (sample c p)) (set (observed_memory ps)))"
    using Cons.IH[OF t] .
  have unf: "run_samples c (p # ps) = run_samples (sample c p) ps"
    by (simp add: run_samples_def)
  show ?case
  proof (cases "rss p")
    case None
    then show ?thesis
      using step unf Cons.prems by (simp add: sample_peak observed_memory_def)
  next
    case (Some r)
    have "Max (insert (max (peak_memory c) (memory_mb p r)) (set (observed_memory ps)))
        = Max (insert (peak_memory c) (insert (memory_mb p r) (set (observed_memory ps))))"
      by (cases "observed_memory ps = []") (simp_all add: max.assoc)
    then show ?thesis
      using step unf Cons.prems Some by (simp add: sample_peak observed_memory_def)
  qed
qed

lemma memory_mb_nonneg: "0 \<le> memory_mb p r"
proof -
  have "0 \<le> sum_list (map child_mb cs)" for cs
    by (induction cs) (auto simp: child_mb_def split: option.splits)
  then show ?thesis by (simp add: memory_mb_def split: option.splits)
qed

lemma observed_memory_nonneg: "x \<in> set (observed_memory ps) \<Longrightarrow> 0 \<le> x"
  by (auto simp: observed_memory_def memory_mb_nonneg split: option.splits)

lemma run_samples_unattached: "target_process c = None \<Longrightarrow> run_samples c ps = c"
  by (induction ps arbitrary: c) (simp_all add: run_samples_def sample_unattached)

text \<open>
  C9. Within one run the peak memory after any number of samples is the maximum of the
  memory sums observed so far (taken with the value the collector started from, which is 0
  for a new collector, and every sum is at least 0), so it never decreases from one sample
  to the next; and a sample taken before the collector is attached to a process changes
  nothing: the peak memory and the list of CPU samples are as before.
\<close>

theorem sample_peak_memory:
  "(target_process c = Some pid \<longrightarrow>
      peak_memory (run_samples c ps) = Max (insert (peak_memory c) (set (observed_memory ps))))
   \<and> (outcome \<noteq> NoProcess \<and> observed_memory ps \<noteq> [] \<longrightarrow>
        peak_memory (run_samples (attach_to_process (new_collector cn sn) pid outcome) ps)
          = Max (set (observed_memory ps)))
   \<and> peak_memory c \<le> peak_memory (sample c p)
   \<and> peak_memory c \<le> peak_memory (run_samples c ps)
   \<and> (target_process c = None \<longrightarrow> sample c p = c \<and> run_samples c ps = c)"
proof (intro conjI impI)
  assume "target_process c = Some pid"
  then show "peak_memory (run_samples c ps) = Max (insert (peak_memory c) (set (observed_memory ps)))"
    by (rule run_samples_peak)
next
  assume a: "outcome \<noteq> NoProcess \<and> observed_memory ps \<noteq> []"
  let ?c = "attach_to_process (new_collector cn sn) pid outcome"
  have t: "target_process ?c = Some pid" and pk: "peak_memory ?c = 0"
    using a by (cases outcome; simp add: attach_to_process_def new_collector_def)+
  have "0 \<le> Max (set (observed_memory ps))"
    using a observed_memory_nonneg[of _ ps]
    by (metis List.finite_set Max_in set_empty)
  then have "Max (insert 0 (set (observed_memory ps))) = Max (set (observed_memory ps))"
    using a by (simp add: max_def)
  then show "peak_memory (run_samples ?c ps) = Max (set (observed_memory ps))"
    using run_samples_peak[OF t, of ps] pk by simp
next
  show "peak_memory c \<le> peak_memory (sample c p)" by (rule sample_peak_mono)
next
  show "peak_memory c \<le> peak_memory (run_samples c ps)"
    by (induction ps arbitrary: c)
       (auto simp: run_samples_def intro: order_trans[OF sample_peak_mono])
next
  assume "target_process c = None"
  then show "sample c p = c" by (rule sample_unattached)
next
  assume "target_process c = None"
  then show "run_samples c ps = c" by (rule run_samples_unattached)
qed

theorem sample_peak_memory_witness:
  "target_process (attach_to_process (new_collector ''reddit'' ''50'') 4242 Attached) = Some 4242
   \<and> observed_memory example_probes = [3, 1]
   \<and> peak_memory (run_samples (attach_to_process (new_collector ''reddit'' ''50'') 4242 Attached)
        example_probes) = 3
   \<and> target_process (new_collector ''reddit'' ''50'') = None
   \<and> run_samples (new_collector ''reddit'' ''50'') example_probes = new_collector ''reddit'' ''50''"
proof -
  have o: "observed_memory example_probes = [3, 1]"
    by (simp add: observed_memory_def example_probes_def memory_mb_def child_mb_def BYTES_PER_MB_def)
  have t: "target_process (attach_to_process (new_collector ''reddit'' ''50'') 4242 Attached) = Some 4242"
    by (simp add: attach_to_process_def new_collector_def)
  have n: "target_process (new_collector ''reddit'' ''50'') = None"
    by (simp add: new_collector_def)
  show ?thesis
    using sample_peak_memory[of "new_collector ''reddit'' ''50''" 4242 example_probes Attached
            "''reddit''" "''50''" "hd example_probes"] o t n
    by simp
qed

subsection \<open>The keys the analyzers write\<close>

lemma text_keys: "k \<notin> text_metric_keys \<Longrightarrow> analyze_text_content m items k = m k"
  by (simp add: text_metric_keys_def analyze_text_content_def type_metrics_def length_metrics_def
        Let_def)

lemma url_keys: "k \<notin> later_keys \<Longrightarrow> analyze_urls nl m items = Inr m' \<Longrightarrow> m' k = m k"
  by (auto simp: later_keys_def analyze_urls_def url_result_def Let_def split: sum.splits)

lemma id_keys: "k \<notin> later_keys \<Longrightarrow> analyze_identifiers rp m items k = m k"
  by (simp add: later_keys_def analyze_identifiers_def Let_def)

lemma author_keys: "k \<notin> later_keys \<Longrightarrow> analyze_authors rp m items k = m k"
  by (simp add: later_keys_def analyze_authors_def Let_def)

lemma thread_keys:
  "k \<notin> later_keys \<Longrightarrow> analyze_threads re rp m items = Inr m' \<Longrightarrow> m' k = m k"
  by (auto simp: later_keys_def analyze_threads_def thread_result_def Let_def
           split: sum.splits option.splits mval.splits)

lemma temporal_keys: "k \<notin> later_keys \<Longrightarrow> analyze_temporal_data m items k = m k"
  by (simp add: later_keys_def analyze_temporal_data_def Let_def)

text \<open>
  What \<^verbatim>\<open>calculate_all_metrics\<close> returns, when it returns: nothing for no items, and
  otherwise the result of the text analyzer under every key the later analyzers do not
  write.
\<close>

lemma calc_empty:
  "all_items (gather (json_loads lib) fs files) = [] \<Longrightarrow>
   calculate_all_metrics lib fs files = Inr Map.empty"
  by (simp add: calculate_all_metrics_def Let_def)

lemma calc_early_keys:
  assumes "k \<notin> later_keys" "calculate_all_metrics lib fs files = Inr q"
    and ne: "all_items (gather (json_loads lib) fs files) \<noteq> []"
  shows "q k = analyze_text_content
                 [''total_items'' \<mapsto> MInt (int (length (all_items (gather (json_loads lib) fs files)))),
                  ''files_analyzed'' \<mapsto>
                     MInt (int (length (file_stats (gather (json_loads lib) fs files))))]
                 (all_items (gather (json_loads lib) fs files)) k"
proof -
  define items where "items = all_items (gather (json_loads lib) fs files)"
  define m0 :: metrics where
    "m0 = [''total_items'' \<mapsto> MInt (int (length items)),
           ''files_analyzed'' \<mapsto> MInt (int (length (file_stats (gather (json_loads lib) fs files))))]"
  from assms(2) ne obtain m2 m5 where
    u: "analyze_urls (url_netloc lib) (analyze_text_content m0 items) items = Inr m2" and
    t: "analyze_threads (re_group lib) (py_repr lib)
          (analyze_authors (py_repr lib) (analyze_identifiers (py_repr lib) m2 items) items) items
        = Inr m5" and
    q: "q = analyze_temporal_data m5 items"
    by (auto simp: calculate_all_metrics_def Let_def items_def m0_def split: sum.splits)
  have "m2 k = analyze_text_content m0 items k" using url_keys[OF assms(1) u] .
  then have "m5 k = analyze_text_content m0 items k"
    using thread_keys[OF assms(1) t] author_keys[OF assms(1)] id_keys[OF assms(1)] by simp
  then show ?thesis
    using q temporal_keys[OF assms(1)] by (simp add: items_def m0_def)
qed

lemma calc_keys:
  assumes "k \<notin> quality_keys" "calculate_all_metrics lib fs files = Inr q"
  shows "q k = None"
proof (cases "all_items (gather (json_loads lib) fs files) = []")
  case True
  then show ?thesis using assms(2) by (auto simp: calc_empty)
next
  case False
  have l: "k \<notin> later_keys" and t: "k \<notin> text_metric_keys"
    and o: "k \<noteq> ''total_items''" "k \<noteq> ''files_analyzed''"
    using assms(1) by (simp_all add: quality_keys_def)
  show ?thesis
    unfolding calc_early_keys[OF l assms(2) False] text_keys[OF t] using o by simp
qed

lemma add_enhanced_keys:
  "k \<noteq> ''enhanced_metrics'' \<Longrightarrow> k \<noteq> ''enhanced_metrics_error'' \<Longrightarrow>
   add_enhanced lib fs d files k = d k"
  by (simp add: add_enhanced_def split: sum.splits)

lemma add_throughput_keys:
  "k \<noteq> ''items_per_second'' \<Longrightarrow> k \<noteq> ''text_items_per_second'' \<Longrightarrow>
   add_throughput q d rt k = d k"
  by (simp add: add_throughput_def Let_def)

lemma add_quality_keys:
  assumes "k \<notin> quality_keys" "k \<noteq> ''enhanced_metrics''" "k \<noteq> ''enhanced_metrics_error''"
    "k \<noteq> ''items_per_second''" "k \<noteq> ''text_items_per_second''"
    "add_quality_metrics lib fs d files rt = Inr r"
  shows "r k = d k"
proof -
  from assms(6) obtain q where q: "calculate_all_metrics lib fs files = Inr q"
    and r: "r = add_throughput q (add_enhanced lib fs (d ++ q) files) rt"
    by (auto simp: add_quality_metrics_def split: sum.splits)
  have "q k = None" using calc_keys[OF assms(1) q] .
  then have "(d ++ q) k = d k" by (simp add: map_add_def)
  then show ?thesis using r assms(2-5) by (simp add: add_throughput_keys add_enhanced_keys)
qed

subsection \<open>The polling loop\<close>

lemma run_samples_start: "start_time (run_samples c ps) = start_time c"
proof (induction ps arbitrary: c)
  case Nil show ?case by (simp add: run_samples_def)
next
  case (Cons p ps)
  have "start_time (sample c p) = start_time c"
    by (simp add: sample_def Let_def split: option.splits)
  then show ?case using Cons[of "sample c p"] by (simp add: run_samples_def)
qed

lemma poll_loop_prefix:
  "list_all (\<lambda>u. poll u = None \<and> elapsed u \<le> real_of_int T) pre \<Longrightarrow>
   poll_loop T c (pre @ ts) = poll_loop T (run_samples c (map observed pre)) ts"
  by (induction pre arbitrary: c) (auto simp: run_samples_def)

lemma poll_loop_Some:
  "poll_loop T c ts = Some (code, killed, c') \<Longrightarrow>
   \<exists>pre t post. ts = pre @ t # post
      \<and> list_all (\<lambda>u. poll u = None \<and> elapsed u \<le> real_of_int T) pre
      \<and> c' = run_samples c (map observed pre)
      \<and> (if killed then poll t = None \<and> real_of_int T < elapsed t \<and> code = - 1
          else poll t = Some code)"
proof (induction ts arbitrary: c)
  case Nil
  then show ?case by simp
next
  case (Cons t ts)
  show ?case
  proof (cases "poll t")
    case (Some e)
    with Cons.prems have "code = e" "\<not> killed" "c' = c" by auto
    then show ?thesis using Some
      by (intro exI[of _ "[]"] exI[of _ t] exI[of _ ts]) (simp add: run_samples_def)
  next
    case None
    show ?thesis
    proof (cases "real_of_int T < elapsed t")
      case True
      with None Cons.prems have "code = - 1" "killed" "c' = c" by auto
      then show ?thesis using None True
        by (intro exI[of _ "[]"] exI[of _ t] exI[of _ ts]) (simp add: run_samples_def)
    next
      case False
      with None Cons.prems have "poll_loop T (sample c (observed t)) ts = Some (code, killed, c')"
        by simp
      from Cons.IH[OF this] obtain pre u post where
        h: "ts = pre @ u # post"
           "list_all (\<lambda>u. poll u = None \<and> elapsed u \<le> real_of_int T) pre"
           "c' = run_samples (sample c (observed t)) (map observed pre)"
           "(if killed then poll u = None \<and> real_of_int T < elapsed u \<and> code = - 1
             else poll u = Some code)"
        by blast
      show ?thesis
        using h None False
        by (intro exI[of _ "t # pre"] exI[of _ u] exI[of _ post]) (simp add: run_samples_def)
    qed
  qed
qed

lemma run_process_start:
  "run_process c pid a T ts = Some (code, killed, c') \<Longrightarrow> start_time c' = start_time c"
proof -
  assume "run_process c pid a T ts = Some (code, killed, c')"
  then have "poll_loop T (attach_to_process c pid a) ts = Some (code, killed, c')"
    by (simp add: run_process_def)
  from poll_loop_Some[OF this]
  obtain pre :: "tick list"
    where "c' = run_samples (attach_to_process c pid a) (map observed pre)"
    by blast
  then show ?thesis
    by (cases a) (simp_all add: run_samples_start attach_to_process_def)
qed

lemma started_collector_start:
  "start_time (started_collector logs env cn sn) = Some (started_at env)"
  by (simp add: started_collector_def start_def)

lemma report_failure:
  "start_time c = Some t0 \<Longrightarrow> code \<noteq> 0 \<Longrightarrow>
   \<exists>r. report lib env files code c = Inr r \<and> r ''success'' = Some (MBool False)"
  by (simp add: report_def stop_def Let_def model_dump_def)

lemma report_success_key:
  assumes "report lib env files code c = Inr r"
  shows "r ''success'' = Some (MBool (code = 0))"
proof -
  from assms obtain res where
    st: "stop c (int (count_existing (files_after env) files)) (code = 0) (stopped_at env)
           (human_stamp env) = Inr res"
    by (auto simp: report_def Let_def split: sum.splits)
  then have d: "model_dump res ''success'' = Some (MBool (code = 0))"
    by (auto simp: stop_def Let_def model_dump_def split: option.splits)
  show ?thesis
  proof (cases "code = 0")
    case True
    with assms st have
      "add_quality_metrics lib (files_after env) (model_dump res) files (total_runtime_seconds res)
         = Inr r"
      by (simp add: report_def Let_def)
    then have "r ''success'' = model_dump res ''success''"
      by (rule add_quality_keys[rotated -1])
         (simp_all add: quality_keys_def text_metric_keys_def later_keys_def)
    then show ?thesis using d by simp
  next
    case False
    with assms st have "r = model_dump res" by (simp add: report_def Let_def)
    then show ?thesis using d by simp
  qed
qed

lemma report_success_returns:
  "start_time c = Some t0 \<Longrightarrow>
   (\<exists>r. report lib env files 0 c = Inr r)
     = (\<exists>q. calculate_all_metrics lib (files_after env) files = Inr q)"
  by (auto simp: report_def stop_def Let_def add_quality_metrics_def split: sum.splits)

text \<open>
  C3. In every iteration of the polling loop the exit status is tested before the
  timeout: after any number of iterations in which the process was running within the
  timeout, a process found exited is reported with its own exit code and is not killed,
  whatever the clock reads at that iteration; it is killed, and -1 returned, when it is
  found running with the clock past the timeout; and a run that returns did one or the
  other, the kill only in the second case. The report's \<open>success\<close> is true exactly when
  the returned code is 0: a run with another code (the -1 of the timeout included) always
  yields a report, with \<open>success\<close> false, and a run with code 0 yields a report exactly when
  the quality analysis raises nothing.
\<close>

theorem exit_check_precedes_timeout:
  "(list_all (\<lambda>u. poll u = None \<and> elapsed u \<le> real_of_int T) pre \<and> poll t = Some code \<longrightarrow>
      run_process c pid a T (pre @ t # ts)
        = Some (code, False, run_samples (attach_to_process c pid a) (map observed pre)))
   \<and> (list_all (\<lambda>u. poll u = None \<and> elapsed u \<le> real_of_int T) pre
        \<and> poll t = None \<and> real_of_int T < elapsed t \<longrightarrow>
      run_process c pid a T (pre @ t # ts)
        = Some (- 1, True, run_samples (attach_to_process c pid a) (map observed pre)))
   \<and> (run_process c pid a T ts' = Some (code', killed, c') \<longrightarrow>
        (\<exists>pre' t' post'. ts' = pre' @ t' # post'
           \<and> list_all (\<lambda>u. poll u = None \<and> elapsed u \<le> real_of_int T) pre'
           \<and> (if killed then poll t' = None \<and> real_of_int T < elapsed t' \<and> code' = - 1
               else poll t' = Some code')))
   \<and> (run_process (started_collector logs env cn sn) (process_id env) (attach env) T (ticks env)
         = Some (code', killed, c') \<longrightarrow>
        (\<forall>r. execute_benchmark lib logs env files cn sn T = Some (Inr r)
               \<longrightarrow> r ''success'' = Some (MBool (code' = 0)))
        \<and> (code' \<noteq> 0 \<longrightarrow>
             (\<exists>r. execute_benchmark lib logs env files cn sn T = Some (Inr r)
                  \<and> r ''success'' = Some (MBool False)))
        \<and> (code' = 0 \<longrightarrow>
             (\<exists>r. execute_benchmark lib logs env files cn sn T = Some (Inr r))
               = (\<exists>q. calculate_all_metrics lib (files_after env) files = Inr q)))"
proof (intro conjI impI)
  assume "list_all (\<lambda>u. poll u = None \<and> elapsed u \<le> real_of_int T) pre \<and> poll t = Some code"
  then show "run_process c pid a T (pre @ t # ts)
        = Some (code, False, run_samples (attach_to_process c pid a) (map observed pre))"
    by (simp add: run_process_def poll_loop_prefix)
next
  assume "list_all (\<lambda>u. poll u = None \<and> elapsed u \<le> real_of_int T) pre
        \<and> poll t = None \<and> real_of_int T < elapsed t"
  then show "run_process c pid a T (pre @ t # ts)
        = Some (- 1, True, run_samples (attach_to_process c pid a) (map observed pre))"
    by (simp add: run_process_def poll_loop_prefix)
next
  assume "run_process c pid a T ts' = Some (code', killed, c')"
  then have "poll_loop T (attach_to_process c pid a) ts' = Some (code', killed, c')"
    by (simp add: run_process_def)
  from poll_loop_Some[OF this]
  show "\<exists>pre' t' post'. ts' = pre' @ t' # post'
           \<and> list_all (\<lambda>u. poll u = None \<and> elapsed u \<le> real_of_int T) pre'
           \<and> (if killed then poll t' = None \<and> real_of_int T < elapsed t' \<and> code' = - 1
               else poll t' = Some code')"
    by (elim exE conjE, intro exI conjI) assumption+
next
  assume rp: "run_process (started_collector logs env cn sn) (process_id env) (attach env) T
                (ticks env) = Some (code', killed, c')"
  have ex: "execute_benchmark lib logs env files cn sn T = Some (report lib env files code' c')"
    using rp by (simp add: execute_benchmark_def)
  have st: "start_time c' = Some (started_at env)"
    using run_process_start[OF rp] by (simp add: started_collector_start)
  show "\<forall>r. execute_benchmark lib logs env files cn sn T = Some (Inr r)
               \<longrightarrow> r ''success'' = Some (MBool (code' = 0))"
    using ex report_success_key by auto
  show "code' \<noteq> 0 \<Longrightarrow>
             (\<exists>r. execute_benchmark lib logs env files cn sn T = Some (Inr r)
                  \<and> r ''success'' = Some (MBool False))"
    using ex report_failure[OF st] by simp
  show "code' = 0 \<Longrightarrow>
             (\<exists>r. execute_benchmark lib logs env files cn sn T = Some (Inr r))
               = (\<exists>q. calculate_all_metrics lib (files_after env) files = Inr q)"
    using ex report_success_returns[OF st] by simp
qed


theorem exit_check_precedes_timeout_witness:
  "poll late_exit_tick = Some 0 \<and> real_of_int 300 < elapsed late_exit_tick
   \<and> run_process (new_collector ''reddit'' ''50'') 4242 Attached 300
         [running_tick, late_exit_tick]
       = Some (0, False,
               run_samples (attach_to_process (new_collector ''reddit'' ''50'') 4242 Attached)
                 [quiet_probe])
   \<and> run_process (new_collector ''reddit'' ''50'') 4242 Attached 300
         [running_tick, late_running_tick]
       = Some (- 1, True,
               run_samples (attach_to_process (new_collector ''reddit'' ''50'') 4242 Attached)
                 [quiet_probe])
   \<and> run_process (started_collector ''logs'' (example_env [failed_tick] Map.empty)
                    ''reddit'' ''50'') 4242 Attached 300 [failed_tick]
       = Some (3, False,
               attach_to_process (started_collector ''logs'' (example_env [failed_tick] Map.empty)
                    ''reddit'' ''50'') 4242 Attached)
   \<and> (\<exists>r. execute_benchmark example_lib ''logs'' (example_env [failed_tick] Map.empty) []
              ''reddit'' ''50'' 300 = Some (Inr r)
          \<and> r ''success'' = Some (MBool False))"
proof -
  let ?c = "new_collector ''reddit'' ''50''"
  let ?env = "example_env [failed_tick] Map.empty"
  let ?sc = "started_collector ''logs'' ?env ''reddit'' ''50''"
  have pre: "list_all (\<lambda>u. poll u = None \<and> elapsed u \<le> real_of_int 300) [running_tick]"
    by (simp add: running_tick_def)
  have a: "poll late_exit_tick = Some 0" "real_of_int 300 < elapsed late_exit_tick"
    by (simp_all add: late_exit_tick_def)
  have b: "poll late_running_tick = None" "real_of_int 300 < elapsed late_running_tick"
    by (simp_all add: late_running_tick_def)
  have f: "run_process ?sc (process_id ?env) (attach ?env) 300 (ticks ?env)
             = Some (3, False, attach_to_process ?sc 4242 Attached)"
    by (simp add: run_process_def example_env_def failed_tick_def)
  note th = exit_check_precedes_timeout[where T = 300 and pre = "[running_tick]" and c = ?c
      and pid = 4242 and a = Attached and ts = "[]" and env = ?env and logs = "''logs''"
      and cn = "''reddit''" and sn = "''50''" and code' = 3 and killed = False
      and c' = "attach_to_process ?sc 4242 Attached" and lib = example_lib and files = "[]"]
  have 1: "run_process ?c 4242 Attached 300 [running_tick, late_exit_tick]
       = Some (0, False, run_samples (attach_to_process ?c 4242 Attached) [quiet_probe])"
    using th[where t = late_exit_tick and code = 0, THEN conjunct1] pre a
    by (simp add: running_tick_def)
  have 2: "run_process ?c 4242 Attached 300 [running_tick, late_running_tick]
       = Some (- 1, True, run_samples (attach_to_process ?c 4242 Attached) [quiet_probe])"
    using th[where t = late_running_tick, THEN conjunct2, THEN conjunct1] pre b
    by (simp add: running_tick_def)
  have 3: "\<exists>r. execute_benchmark example_lib ''logs'' ?env [] ''reddit'' ''50'' 300 = Some (Inr r)
          \<and> r ''success'' = Some (MBool False)"
    using th[where t = late_exit_tick, THEN conjunct2, THEN conjunct2, THEN conjunct2] f
    by simp
  have f': "run_process ?sc 4242 Attached 300 [failed_tick]
             = Some (3, False, attach_to_process ?sc 4242 Attached)"
    using f by (simp add: example_env_def)
  show ?thesis using a 1 2 3 f' by blast
qed

subsection \<open>Loading records\<close>

lemma parse_lines_records:
  "fst (parse_lines loads ls)
     = map (the \<circ> record_of \<circ> loads)
         (filter (\<lambda>l. record_of (loads l) \<noteq> None) (takeWhile (\<lambda>l. \<not> raises (loads l)) ls))"
  by (induction ls) (auto simp: record_of_def raises_def split: load_result.splits prod.splits)

lemma parse_lines_raised:
  "snd (parse_lines loads ls) = None \<longleftrightarrow> list_all (\<lambda>l. \<not> raises (loads l)) ls"
  by (induction ls) (auto simp: raises_def split: load_result.splits prod.splits)

lemma takeWhile_all: "list_all P ls \<Longrightarrow> takeWhile P ls = ls"
  by (induction ls) simp_all

lemma line_kinds:
  "list_all (\<lambda>l. \<not> raises (loads l)) ls \<Longrightarrow>
   length (filter (\<lambda>l. record_of (loads l) \<noteq> None) ls)
     + length (filter (\<lambda>l. malformed (loads l)) ls) = length ls"
  by (induction ls) (auto simp: record_of_def raises_def malformed_def split: load_result.splits)

lemma gather_step_items:
  "all_items (gather_step loads fs st f)
     = all_items st @ (if fs f \<noteq> None \<and> path_suffix f = ''.jsonl'' then load_jsonl loads fs f else [])"
  by (simp add: gather_step_def Let_def)

lemma foldl_gather_items:
  "all_items (foldl (gather_step loads fs) st files)
     = all_items st
       @ concat (map (load_jsonl loads fs)
                   (filter (\<lambda>f. fs f \<noteq> None \<and> path_suffix f = ''.jsonl'') files))"
proof (induction files arbitrary: st)
  case Nil show ?case by simp
next
  case (Cons f files)
  show ?case unfolding foldl_Cons Cons.IH gather_step_items by simp
qed

lemma gather_items:
  "all_items (gather loads fs files)
     = concat (map (load_jsonl loads fs)
                 (filter (\<lambda>f. fs f \<noteq> None \<and> path_suffix f = ''.jsonl'') files))"
  by (simp add: gather_def foldl_gather_items)

text \<open>
  C6, as the code has it. Loading has no error result. It yields the records of the
  well-formed lines, in the order of the file, up to the first line on which
  \<^verbatim>\<open>json.loads\<close> raises an exception other than \<^verbatim>\<open>JSONDecodeError\<close>, and only of the lines
  yielded before the reading fails; the later lines of the file give no record. For a
  file that is read to its end and has no line on which \<^verbatim>\<open>json.loads\<close> raises such an
  exception, with N well-formed and M malformed lines in any interleaving, it yields
  exactly the N records. A path that does not exist gives no record and leaves the
  analyzer's collection as it was: the items analysed are those loaded from the existing
  \<^verbatim>\<open>.jsonl\<close> files, in the order of the list.
\<close>

theorem load_jsonl_records:
  "(fs p = Some (Readable ls) \<or> fs p = Some (Failing ls lost) \<longrightarrow>
      load_jsonl loads fs p
        = map (the \<circ> record_of \<circ> loads)
            (filter (\<lambda>l. record_of (loads l) \<noteq> None)
               (takeWhile (\<lambda>l. \<not> raises (loads l)) ls)))
   \<and> (fs p = Some (Readable ls) \<and> list_all (\<lambda>l. \<not> raises (loads l)) ls \<longrightarrow>
        load_jsonl loads fs p
          = map (the \<circ> record_of \<circ> loads) (filter (\<lambda>l. record_of (loads l) \<noteq> None) ls)
        \<and> length (load_jsonl loads fs p) = length (filter (\<lambda>l. record_of (loads l) \<noteq> None) ls)
        \<and> length (load_jsonl loads fs p) + length (filter (\<lambda>l. malformed (loads l)) ls)
            = length ls)
   \<and> (fs p = None \<longrightarrow> load_jsonl loads fs p = [] \<and> gather_step loads' fs st p = st)
   \<and> all_items (gather loads' fs files)
       = concat (map (load_jsonl loads' fs)
                   (filter (\<lambda>f. fs f \<noteq> None \<and> path_suffix f = ''.jsonl'') files))"
proof (intro conjI impI)
  assume "fs p = Some (Readable ls) \<or> fs p = Some (Failing ls lost)"
  then show "load_jsonl loads fs p
        = map (the \<circ> record_of \<circ> loads)
            (filter (\<lambda>l. record_of (loads l) \<noteq> None)
               (takeWhile (\<lambda>l. \<not> raises (loads l)) ls))"
    by (auto simp: load_jsonl_def parse_lines_records)
next
  assume a: "fs p = Some (Readable ls) \<and> list_all (\<lambda>l. \<not> raises (loads l)) ls"
  then show l: "load_jsonl loads fs p
          = map (the \<circ> record_of \<circ> loads) (filter (\<lambda>l. record_of (loads l) \<noteq> None) ls)"
    by (simp add: load_jsonl_def parse_lines_records takeWhile_all)
  then show n: "length (load_jsonl loads fs p)
      = length (filter (\<lambda>l. record_of (loads l) \<noteq> None) ls)"
    by simp
  show "length (load_jsonl loads fs p) + length (filter (\<lambda>l. malformed (loads l)) ls)
            = length ls"
    using n line_kinds[of loads ls] a by simp
next
  assume "fs p = None"
  then show "load_jsonl loads fs p = []" by (simp add: load_jsonl_def)
next
  assume "fs p = None"
  then show "gather_step loads' fs st p = st" by (simp add: gather_step_def)
next
  show "all_items (gather loads' fs files)
       = concat (map (load_jsonl loads' fs)
                   (filter (\<lambda>f. fs f \<noteq> None \<and> path_suffix f = ''.jsonl'') files))"
    by (rule gather_items)
qed

lemma deep_line_raises: "example_loads deep_line = Raised RecursionError"
  by (simp add: example_loads_def deep_line_def)

text \<open>
  Well-formed lines are lost: of a file whose first line is nested too deeply for
  \<^verbatim>\<open>json.loads\<close> and whose second line is the well-formed \<^verbatim>\<open>{}\<close>, nothing is loaded; and of
  a file of two well-formed lines whose reading fails after the first, one record is.
\<close>

theorem load_jsonl_counterexample:
  "deep_files ''data/deep.jsonl'' = Some (Readable [deep_line, ''{}''])
   \<and> example_loads ''{}'' = Loaded []
   \<and> load_jsonl example_loads deep_files ''data/deep.jsonl'' = []
   \<and> example_files ''data/broken.jsonl'' = Some (Failing [''{}''] [''{}''])
   \<and> load_jsonl example_loads example_files ''data/broken.jsonl'' = [[]]"
  by (simp add: deep_files_def load_jsonl_def deep_line_raises example_files_def)
     (simp add: example_loads_def)

theorem load_jsonl_records_witness:
  \<open>example_files ''data/run_posts.jsonl''
      = Some (Readable [''{}'', ''not json'', ''{"text": "hi"}''])
   \<and> list_all (\<lambda>l. \<not> raises (example_loads l)) [''{}'', ''not json'', ''{"text": "hi"}'']
   \<and> load_jsonl example_loads example_files ''data/run_posts.jsonl''
        = [[], [(''text'', JStr ''hi'')]]
   \<and> deep_files ''data/deep.jsonl'' = Some (Readable [deep_line, ''{}''])
   \<and> load_jsonl example_loads deep_files ''data/deep.jsonl'' = []
   \<and> example_files ''data/missing.jsonl'' = None
   \<and> load_jsonl example_loads example_files ''data/missing.jsonl'' = []
   \<and> all_items (gather example_loads example_files
                   [''data/missing.jsonl'', ''data/run_posts.jsonl''])
        = [[], [(''text'', JStr ''hi'')]]\<close>
proof -
  have e: \<open>example_files ''data/run_posts.jsonl''
            = Some (Readable [''{}'', ''not json'', ''{"text": "hi"}''])\<close>
    and m: "example_files ''data/missing.jsonl'' = None"
    by (simp_all add: example_files_def)
  have nr: \<open>list_all (\<lambda>l. \<not> raises (example_loads l)) [''{}'', ''not json'', ''{"text": "hi"}'']\<close>
    by (simp add: example_loads_def raises_def)
  have d: "deep_files ''data/deep.jsonl'' = Some (Readable [deep_line, ''{}''])"
    by (simp add: deep_files_def)
  have s: "path_suffix ''data/run_posts.jsonl'' = ''.jsonl''"
    by (simp add: path_suffix_def path_name_def Let_def)
  note th = load_jsonl_records[where fs = example_files and loads = example_loads
      and loads' = example_loads and p = "''data/run_posts.jsonl''"
      and files = "[''data/missing.jsonl'', ''data/run_posts.jsonl'']"
      and ls = \<open>[''{}'', ''not json'', ''{"text": "hi"}'']\<close>]
  from th[THEN conjunct2, THEN conjunct1] e nr
  have \<open>load_jsonl example_loads example_files ''data/run_posts.jsonl''
          = map (the \<circ> record_of \<circ> example_loads)
              (filter (\<lambda>l. record_of (example_loads l) \<noteq> None)
                 [''{}'', ''not json'', ''{"text": "hi"}''])\<close>
    by blast
  then have 1: \<open>load_jsonl example_loads example_files ''data/run_posts.jsonl''
        = [[], [(''text'', JStr ''hi'')]]\<close>
    by (simp add: example_loads_def record_of_def)
  have 2: "load_jsonl example_loads example_files ''data/missing.jsonl'' = []"
    using load_jsonl_records[where fs = example_files and p = "''data/missing.jsonl''"
            and loads = example_loads,
            THEN conjunct2, THEN conjunct2, THEN conjunct1] m by simp
  have 3: \<open>all_items (gather example_loads example_files
                   [''data/missing.jsonl'', ''data/run_posts.jsonl''])
        = [[], [(''text'', JStr ''hi'')]]\<close>
    using th[THEN conjunct2, THEN conjunct2, THEN conjunct2] e m s 1 by simp
  have 4: "load_jsonl example_loads deep_files ''data/deep.jsonl'' = []"
    using load_jsonl_records[where fs = deep_files and p = "''data/deep.jsonl''"
            and loads = example_loads and ls = "[deep_line, ''{}'']", THEN conjunct1] d
    by (simp add: deep_line_raises raises_def)
  show ?thesis using e nr m d 1 2 3 4 by simp
qed

subsection \<open>The text analyzer\<close>

lemma text_lens_Nil: "text_lens [] = []"
  by (simp add: text_lens_def)

lemma text_lens_snoc:
  "text_lens (items @ [it])
     = text_lens items
       @ (if extract_text it TEXT_FIELDS \<noteq> [] then [length (extract_text it TEXT_FIELDS)] else [])"
  by (simp add: text_lens_def)

lemma text_loop:
  "text_lengths (foldl text_step text_init items) = text_lens items
   \<and> items_with_text (foldl text_step text_init items) = length (text_lens items)
   \<and> items_with_nontrivial_text (foldl text_step text_init items) = length (nontrivial_lens items)
   \<and> total_text_length (foldl text_step text_init items) = sum_list (text_lens items)"
proof (induction items rule: rev_induct)
  case Nil
  show ?case by (simp add: text_init_def text_lens_Nil nontrivial_lens_def)
next
  case (snoc it items)
  then show ?case
    by (simp add: text_step_def Let_def text_lens_snoc nontrivial_lens_def)
qed

lemma analyze_text_lengths:
  assumes "text_lens items \<noteq> []"
  shows "analyze_text_content m items ''median_text_length''
           = Some (MInt (int (sort (text_lens items) ! (length (text_lens items) div 2))))"
    and "analyze_text_content m items ''text_length_p25''
           = Some (MInt (int (sort (text_lens items) ! (length (text_lens items) div 4))))"
    and "analyze_text_content m items ''text_length_p75''
           = Some (MInt (int (sort (text_lens items) ! ((3 * length (text_lens items)) div 4))))"
  using assms by (simp_all add: analyze_text_content_def text_loop length_metrics_def Let_def)

lemma strip_nonempty_replicate: "0 < n \<Longrightarrow> \<not> isspace c \<Longrightarrow> strip_nonempty (replicate n c)"
  by (cases n) (simp_all add: strip_nonempty_def)

text \<open>
  C8. Whenever some record has a text, the median, the 25th and the 75th percentile of the
  text lengths are the entries of the ascending sorted lengths at the indices
  \<open>n div 2\<close>, \<open>n div 4\<close> and \<open>3 * n div 4\<close>, with no interpolation (\<open>n\<close> is the number
  of lengths); for the lengths 10, 20, 30, 40, met in any order, they are 30, 20 and 40.
\<close>

theorem percentiles_by_floor_index:
  "(text_lens items \<noteq> [] \<longrightarrow>
      analyze_text_content m items ''median_text_length''
        = Some (MInt (int (sort (text_lens items) ! (length (text_lens items) div 2))))
      \<and> analyze_text_content m items ''text_length_p25''
        = Some (MInt (int (sort (text_lens items) ! (length (text_lens items) div 4))))
      \<and> analyze_text_content m items ''text_length_p75''
        = Some (MInt (int (sort (text_lens items) ! ((3 * length (text_lens items)) div 4)))))
   \<and> (mset (text_lens items) = mset [10, 20, 30, 40] \<longrightarrow>
        analyze_text_content m items ''median_text_length'' = Some (MInt 30)
        \<and> analyze_text_content m items ''text_length_p25'' = Some (MInt 20)
        \<and> analyze_text_content m items ''text_length_p75'' = Some (MInt 40))"
proof (intro conjI impI)
  assume a: "mset (text_lens items) = mset [10, 20, 30, 40]"
  have ne: "text_lens items \<noteq> []" using a by auto
  have s: "sort (text_lens items) = [10, 20, 30, 40]"
    by (rule properties_for_sort) (simp_all add: a)
  have n: "length (text_lens items) = 4"
    using arg_cong[OF a, of size] by simp
  show "analyze_text_content m items ''median_text_length'' = Some (MInt 30)"
    using analyze_text_lengths(1)[OF ne] s n by simp
  show "analyze_text_content m items ''text_length_p25'' = Some (MInt 20)"
    using analyze_text_lengths(2)[OF ne] s n by simp
  show "analyze_text_content m items ''text_length_p75'' = Some (MInt 40)"
    using analyze_text_lengths(3)[OF ne] s n by simp
qed (simp_all add: analyze_text_lengths)


theorem percentiles_by_floor_index_witness:
  "text_lens example_text_items = [30, 10, 40, 20]
   \<and> mset (text_lens example_text_items) = mset [10, 20, 30, 40]
   \<and> analyze_text_content Map.empty example_text_items ''median_text_length'' = Some (MInt 30)
   \<and> analyze_text_content Map.empty example_text_items ''text_length_p25'' = Some (MInt 20)
   \<and> analyze_text_content Map.empty example_text_items ''text_length_p75'' = Some (MInt 40)"
proof -
  have x: "strip_nonempty (replicate n CHR ''x'')" if "0 < n" for n
    using that by (rule strip_nonempty_replicate) (simp add: isspace_def)
  have b: "\<not> strip_nonempty ''  ''"
    by (simp add: strip_nonempty_def isspace_def)
  have tl: "text_lens example_text_items = [30, 10, 40, 20]"
    by (simp add: text_lens_def example_text_items_def TEXT_FIELDS_def x b)
  have ms: "mset (text_lens example_text_items) = mset [10, 20, 30, 40]"
    unfolding tl by (simp add: add_mset_commute)
  show ?thesis
    using percentiles_by_floor_index[of example_text_items Map.empty, THEN conjunct2] tl ms
    by simp
qed

subsection \<open>Where the analyzers raise\<close>

lemma thread_id_of_url_accepts:
  "threads_accepts it \<Longrightarrow> \<exists>r. thread_id_of_url re it = Inr r"
  by (auto simp: threads_accepts_def thread_id_of_url_def thread_url_value_def is_str_def
           split: json.splits if_splits)

lemma thread_id_of_url_rejects:
  "\<not> threads_accepts it \<Longrightarrow> thread_id_of_url re it = Inl TypeError"
  by (auto simp: threads_accepts_def thread_id_of_url_def thread_url_value_def is_str_def
           split: json.splits if_splits)

lemma thread_id_of_accepts: "threads_accepts it \<Longrightarrow> \<exists>r. thread_id_of re it = Inr r"
  using thread_id_of_url_accepts[of it re]
  by (auto simp: thread_id_of_def split: sum.splits option.splits)

lemma thread_id_of_rejects: "\<not> threads_accepts it \<Longrightarrow> thread_id_of re it = Inl TypeError"
  by (simp add: thread_id_of_def thread_id_of_url_rejects)

lemma thread_id_of_error: "thread_id_of re it = Inl e \<Longrightarrow> e = TypeError"
  by (cases "threads_accepts it")
     (use thread_id_of_accepts[of it re] thread_id_of_rejects[of it re] in auto)

lemma collect_thread_ids_accepts:
  "list_all threads_accepts items \<Longrightarrow> \<exists>ids. collect_thread_ids re rp items = Inr ids"
proof (induction items)
  case Nil show ?case by simp
next
  case (Cons it items)
  then obtain r ids where "thread_id_of re it = Inr r" "collect_thread_ids re rp items = Inr ids"
    using thread_id_of_accepts[of it re] by auto
  then show ?case by simp
qed

lemma collect_thread_ids_rejects:
  "\<not> list_all threads_accepts items \<Longrightarrow> collect_thread_ids re rp items = Inl TypeError"
proof (induction items)
  case Nil then show ?case by simp
next
  case (Cons it items)
  show ?case
  proof (cases "threads_accepts it")
    case False
    then show ?thesis by (simp add: thread_id_of_rejects)
  next
    case True
    then obtain r where r: "thread_id_of re it = Inr r" using thread_id_of_accepts by blast
    from True Cons.prems have "\<not> list_all threads_accepts items" by simp
    then show ?thesis using Cons.IH r by simp
  qed
qed

lemma analyze_threads_accepts:
  "list_all threads_accepts items \<Longrightarrow> \<exists>m'. analyze_threads re rp m items = Inr m'"
  using collect_thread_ids_accepts[of items re rp] by (auto simp: analyze_threads_def)

lemma analyze_threads_rejects:
  "\<not> list_all threads_accepts items \<Longrightarrow> analyze_threads re rp m items = Inl TypeError"
  by (simp add: analyze_threads_def collect_thread_ids_rejects)

lemma url_fields_loop_accepts:
  "list_all (\<lambda>k. case map_of it k of Some (JStr u) \<Rightarrow> nl u \<noteq> None | _ \<Rightarrow> True) ks \<Longrightarrow>
   \<exists>st'. url_fields_loop nl it st ks = Inr st'"
  by (induction ks arbitrary: st) (auto split: option.splits json.splits)

lemma url_fields_loop_rejects:
  "\<not> list_all (\<lambda>k. case map_of it k of Some (JStr u) \<Rightarrow> nl u \<noteq> None | _ \<Rightarrow> True) ks \<Longrightarrow>
   url_fields_loop nl it st ks = Inl ValueError"
  by (induction ks arbitrary: st) (auto split: option.splits json.splits)

lemma url_loop_accepts:
  "list_all (netloc_accepts nl) items \<Longrightarrow> \<exists>st'. url_loop nl st items = Inr st'"
proof (induction items arbitrary: st)
  case Nil show ?case by simp
next
  case (Cons it items)
  from Cons.prems obtain st1 where
    "url_fields_loop nl it (url_track_thread (url_track_page st it) it) URL_FIELDS = Inr st1"
    using url_fields_loop_accepts[where it = it and nl = nl and ks = URL_FIELDS]
      by (auto simp: netloc_accepts_def)
  then show ?case using Cons.IH[of st1] Cons.prems by simp
qed

lemma url_loop_rejects:
  "\<not> list_all (netloc_accepts nl) items \<Longrightarrow> url_loop nl st items = Inl ValueError"
proof (induction items arbitrary: st)
  case Nil then show ?case by simp
next
  case (Cons it items)
  show ?case
  proof (cases "netloc_accepts nl it")
    case False
    then show ?thesis by (simp add: netloc_accepts_def url_fields_loop_rejects)
  next
    case True
    then obtain st1 where
      s: "url_fields_loop nl it (url_track_thread (url_track_page st it) it) URL_FIELDS = Inr st1"
      using url_fields_loop_accepts[where it = it and nl = nl and ks = URL_FIELDS]
      by (auto simp: netloc_accepts_def)
    from True Cons.prems have "\<not> list_all (netloc_accepts nl) items" by simp
    then show ?thesis using Cons.IH[of st1] s by simp
  qed
qed

lemma analyze_urls_accepts:
  "list_all (netloc_accepts nl) items \<Longrightarrow> \<exists>m'. analyze_urls nl m items = Inr m'"
  using url_loop_accepts[of nl items url_init] by (auto simp: analyze_urls_def)

lemma analyze_urls_rejects:
  "\<not> list_all (netloc_accepts nl) items \<Longrightarrow> analyze_urls nl m items = Inl ValueError"
  by (simp add: analyze_urls_def url_loop_rejects)

lemma calc_returns:
  "(\<exists>q. calculate_all_metrics lib fs files = Inr q)
     = (list_all (netloc_accepts (url_netloc lib)) (all_items (gather (json_loads lib) fs files))
        \<and> list_all threads_accepts (all_items (gather (json_loads lib) fs files)))"
proof (cases "all_items (gather (json_loads lib) fs files) = []")
  case True
  then show ?thesis by (simp add: calc_empty)
next
  case False
  define items where "items = all_items (gather (json_loads lib) fs files)"
  show ?thesis
  proof (cases "list_all (netloc_accepts (url_netloc lib)) items")
    case u: False
    then show ?thesis
      using False by (simp add: calculate_all_metrics_def Let_def analyze_urls_rejects items_def)
  next
    case u: True
    show ?thesis
    proof (cases "list_all threads_accepts items")
      case t: False
      then show ?thesis
        using False u analyze_urls_accepts[OF u]
        by (auto simp: calculate_all_metrics_def Let_def analyze_threads_rejects items_def
                 split: sum.splits)
    next
      case t: True
      define m1 where "m1 = analyze_text_content
          [''total_items'' \<mapsto> MInt (int (length items)),
           ''files_analyzed'' \<mapsto> MInt (int (length (file_stats (gather (json_loads lib) fs files))))]
          items"
      obtain m2 where m2: "analyze_urls (url_netloc lib) m1 items = Inr m2"
        using analyze_urls_accepts[OF u] by blast
      obtain m5 where "analyze_threads (re_group lib) (py_repr lib)
          (analyze_authors (py_repr lib) (analyze_identifiers (py_repr lib) m2 items) items) items
          = Inr m5"
        using analyze_threads_accepts[OF t] by blast
      then show ?thesis
        using False u t m2
        by (simp add: calculate_all_metrics_def Let_def items_def m1_def)
    qed
  qed
qed

lemma split_from_nonempty: "split_from sep acc k s \<noteq> []"
  by (induction s arbitrary: acc k) auto

lemma split_from_contains:
  "contains sep s \<Longrightarrow> sep \<noteq> [] \<Longrightarrow> \<exists>p0 p1 ps. split_from sep acc 0 s = p0 # p1 # ps"
proof (induction s arbitrary: acc)
  case Nil
  then show ?case by simp
next
  case (Cons c cs)
  show ?case
  proof (cases "starts_with sep (c # cs)")
    case True
    obtain p1 ps where "split_from sep [] (length sep - 1) cs = p1 # ps"
      using split_from_nonempty[of sep "[]" "length sep - 1" cs] by (cases "split_from sep [] (length sep - 1) cs") auto
    then show ?thesis using True by simp
  next
    case False
    then have "contains sep cs" using Cons.prems by simp
    from Cons.IH[OF this Cons.prems(2), of "c # acc"] show ?thesis using False by simp
  qed
qed

lemma crawl_thread_str:
  "thread_url_value it = JStr s \<Longrightarrow> \<exists>st'. crawl_thread st it = Inr st'"
proof -
  assume v: "thread_url_value it = JStr s"
  show ?thesis
  proof (cases "contains ''/threads/'' s")
    case False
    then show ?thesis using v by (simp add: crawl_thread_def thread_url_value_def)
  next
    case True
    then obtain p0 p1 ps where p: "py_split s ''/threads/'' = p0 # p1 # ps"
      unfolding py_split_def using split_from_contains[of "''/threads/''" s "[]"] by auto
    obtain q qs where q: "py_split p1 ''/'' = q # qs"
      unfolding py_split_def using split_from_nonempty[of "''/''" "[]" 0 p1]
      by (cases "split_from ''/'' [] 0 p1") auto
    show ?thesis using v True p q
      by (simp add: crawl_thread_def thread_url_value_def del: contains.simps)
  qed
qed

lemma crawl_thread_plain:
  "is_plain_nonstr (thread_url_value it) \<Longrightarrow> crawl_thread st it = Inl TypeError"
  by (auto simp: crawl_thread_def thread_url_value_def is_plain_nonstr_def split: json.splits)

lemma url_values_strings_thread:
  "url_values_strings it \<Longrightarrow> \<exists>s. thread_url_value it = JStr s"
  by (auto simp: url_values_strings_def thread_url_value_def py_or_def get_def get_default_def
        is_str_def split: option.splits json.splits)

lemma url_values_strings_accepts: "url_values_strings it \<Longrightarrow> threads_accepts it"
  using url_values_strings_thread[of it] by (auto simp: threads_accepts_def is_str_def)

lemma crawl_page_str: "url_values_strings it \<Longrightarrow> \<exists>st'. crawl_page st it = Inr st'"
  by (auto simp: url_values_strings_def crawl_page_def get_default_def is_str_def Let_def
           split: option.splits json.splits)

lemma crawl_step_str: "url_values_strings it \<Longrightarrow> \<exists>st'. crawl_step st it = Inr st'"
proof -
  assume a: "url_values_strings it"
  then obtain s where "thread_url_value it = JStr s" using url_values_strings_thread by blast
  then obtain st1 where "crawl_thread st it = Inr st1" using crawl_thread_str by blast
  then show ?thesis using crawl_page_str[OF a, of st1] by (simp add: crawl_step_def)
qed

lemma crawl_loop_str: "list_all url_values_strings items \<Longrightarrow> \<exists>st'. crawl_loop st items = Inr st'"
proof (induction items arbitrary: st)
  case Nil show ?case by simp
next
  case (Cons it items)
  then obtain st1 where "crawl_step st it = Inr st1" using crawl_step_str[of it st] by auto
  then show ?case using Cons.IH[of st1] Cons.prems by simp
qed

lemma crawl_loop_plain:
  "list_ex (\<lambda>it. is_plain_nonstr (thread_url_value it)) items \<Longrightarrow> \<exists>e. crawl_loop st items = Inl e"
proof (induction items arbitrary: st)
  case Nil then show ?case by simp
next
  case (Cons it items)
  show ?case
  proof (cases "crawl_step st it")
    case (Inl e)
    then show ?thesis by simp
  next
    case (Inr st1)
    then have "\<not> is_plain_nonstr (thread_url_value it)"
      using crawl_thread_plain[of it st] by (auto simp: crawl_step_def)
    then show ?thesis using Cons.IH[of st1] Cons.prems Inr by simp
  qed
qed

lemma analyze_crawl_str:
  "list_all url_values_strings items \<Longrightarrow> \<exists>c. analyze_crawl_behavior items = Inr c"
  using crawl_loop_str[of items crawl_init] by (auto simp: analyze_crawl_behavior_def)

lemma analyze_crawl_plain:
  "list_ex (\<lambda>it. is_plain_nonstr (thread_url_value it)) items \<Longrightarrow>
   \<exists>e. analyze_crawl_behavior items = Inl e"
  using crawl_loop_plain[of items crawl_init] by (auto simp: analyze_crawl_behavior_def)

lemma list_all_url_values_strings:
  "list_all url_values_strings items \<Longrightarrow> list_all threads_accepts items"
  by (induction items) (auto simp: url_values_strings_accepts)


lemma nonstring_url_rejected:
  assumes "truthy v" "is_plain_nonstr v"
    and "map_of it ''thread_url'' = Some v
         \<or> (map_of it ''thread_url'' = None \<and> map_of it ''url'' = Some v)"
  shows "\<not> threads_accepts it" "is_plain_nonstr (thread_url_value it)"
  using assms
  by (cases v; auto simp: threads_accepts_def thread_url_value_def py_or_def get_def
        get_default_def has_key_def is_str_def is_plain_nonstr_def)+

text \<open>
  C10, as the code has it. The metrics pipeline is not total on arbitrary records. A
  record whose \<^verbatim>\<open>thread_url\<close> (or, without a \<^verbatim>\<open>thread_url\<close>, whose \<^verbatim>\<open>url\<close>) holds a truthy
  value that is a number or a bool makes the thread analyzer raise \<^verbatim>\<open>TypeError\<close> wherever
  it stands in the list, and \<^verbatim>\<open>calculate_all_metrics\<close> raises for every run whose items
  contain it; the crawl analyzer raises on such a list as well, \<^verbatim>\<open>TypeError\<close> on the record
  alone. The url analyzer asks nothing of the values that are not strings, and a record
  with the url 5 adds nothing to its counts; it returns when \<^verbatim>\<open>urlparse\<close> accepts every
  string under a url field and raises \<^verbatim>\<open>ValueError\<close> otherwise. A list of records whose
  \<^verbatim>\<open>url\<close> and \<^verbatim>\<open>thread_url\<close> are strings is processed without error by the thread analyzer
  and by the crawl analyzer, and by \<^verbatim>\<open>calculate_all_metrics\<close> exactly when \<^verbatim>\<open>urlparse\<close>
  accepts every string under a url field.
\<close>

theorem nonstring_url_raises:
  "(truthy v \<and> is_plain_nonstr v
      \<and> (map_of it ''thread_url'' = Some v
          \<or> (map_of it ''thread_url'' = None \<and> map_of it ''url'' = Some v)) \<longrightarrow>
      analyze_threads re rp m (pre @ it # post) = Inl TypeError
      \<and> (\<exists>e. analyze_crawl_behavior (pre @ it # post) = Inl e)
      \<and> analyze_crawl_behavior [it] = Inl TypeError
      \<and> (all_items (gather (json_loads lib) fs files) = pre @ it # post \<longrightarrow>
           (\<exists>e. calculate_all_metrics lib fs files = Inl e)))
   \<and> (list_all (netloc_accepts nl) items \<longrightarrow> (\<exists>m'. analyze_urls nl m items = Inr m'))
   \<and> analyze_urls nl m [[(''url'', JInt 5)]]
       = Inr (m(''unique_page_urls'' \<mapsto> MInt 0, ''unique_thread_urls'' \<mapsto> MInt 0))
   \<and> (list_all url_values_strings items \<longrightarrow>
        (\<exists>m'. analyze_threads re rp m items = Inr m')
        \<and> (\<exists>c. analyze_crawl_behavior items = Inr c))
   \<and> (list_all url_values_strings (all_items (gather (json_loads lib) fs files)) \<longrightarrow>
        (\<exists>q. calculate_all_metrics lib fs files = Inr q)
          = list_all (netloc_accepts (url_netloc lib))
              (all_items (gather (json_loads lib) fs files)))
   \<and> (\<not> list_all (netloc_accepts nl) items \<longrightarrow> analyze_urls nl m items = Inl ValueError)
   \<and> (\<not> list_all (netloc_accepts (url_netloc lib)) (all_items (gather (json_loads lib) fs files))
        \<longrightarrow> calculate_all_metrics lib fs files = Inl ValueError)"
proof (intro conjI impI)
  assume a: "truthy v \<and> is_plain_nonstr v
      \<and> (map_of it ''thread_url'' = Some v
          \<or> (map_of it ''thread_url'' = None \<and> map_of it ''url'' = Some v))"
  then have r: "\<not> threads_accepts it" and p: "is_plain_nonstr (thread_url_value it)"
    using nonstring_url_rejected[of v it] by blast+
  show "analyze_threads re rp m (pre @ it # post) = Inl TypeError"
    using r by (simp add: analyze_threads_rejects)
  show "\<exists>e. analyze_crawl_behavior (pre @ it # post) = Inl e"
    using p by (simp add: analyze_crawl_plain)
  show "analyze_crawl_behavior [it] = Inl TypeError"
    using p by (simp add: analyze_crawl_behavior_def crawl_step_def crawl_thread_plain)
  assume g: "all_items (gather (json_loads lib) fs files) = pre @ it # post"
  have "\<not> (\<exists>q. calculate_all_metrics lib fs files = Inr q)"
    unfolding calc_returns g using r by simp
  then show "\<exists>e. calculate_all_metrics lib fs files = Inl e"
    by (cases "calculate_all_metrics lib fs files") auto
next
  assume "list_all (netloc_accepts nl) items"
  then show "\<exists>m'. analyze_urls nl m items = Inr m'" by (rule analyze_urls_accepts)
next
  show "analyze_urls nl m [[(''url'', JInt 5)]]
       = Inr (m(''unique_page_urls'' \<mapsto> MInt 0, ''unique_thread_urls'' \<mapsto> MInt 0))"
    by (simp add: analyze_urls_def url_init_def url_track_page_def url_track_thread_def
          URL_FIELDS_def url_result_def has_key_def get_def get_default_def)
next
  assume a: "list_all url_values_strings items"
  show "\<exists>m'. analyze_threads re rp m items = Inr m'"
    using a by (intro analyze_threads_accepts list_all_url_values_strings)
  show "\<exists>c. analyze_crawl_behavior items = Inr c"
    using a by (rule analyze_crawl_str)
next
  assume "list_all url_values_strings (all_items (gather (json_loads lib) fs files))"
  then show "(\<exists>q. calculate_all_metrics lib fs files = Inr q)
          = list_all (netloc_accepts (url_netloc lib))
              (all_items (gather (json_loads lib) fs files))"
    unfolding calc_returns by (simp add: list_all_url_values_strings)
next
  assume "\<not> list_all (netloc_accepts nl) items"
  then show "analyze_urls nl m items = Inl ValueError" by (rule analyze_urls_rejects)
next
  assume a: "\<not> list_all (netloc_accepts (url_netloc lib))
                 (all_items (gather (json_loads lib) fs files))"
  then have "all_items (gather (json_loads lib) fs files) \<noteq> []" by auto
  then show "calculate_all_metrics lib fs files = Inl ValueError"
    using a by (simp add: calculate_all_metrics_def Let_def analyze_urls_rejects)
qed

lemma bad_host_items:
  "all_items (gather example_loads bad_host_files [''data/pages.jsonl''])
     = [[(''url'', JStr ''http://[bad'')]]"
  by (simp add: gather_def gather_step_def bad_host_files_def path_suffix_def path_name_def
        load_jsonl_def example_loads_def Let_def)

text \<open>
  A record list whose url values are all strings on which the pipeline raises: the one
  record has the url \<^verbatim>\<open>http://[bad\<close>, which \<^verbatim>\<open>urlparse\<close> rejects with \<^verbatim>\<open>ValueError\<close>.
\<close>

theorem string_url_counterexample:
  "all_items (gather example_loads bad_host_files [''data/pages.jsonl''])
     = [[(''url'', JStr ''http://[bad'')]]
   \<and> list_all url_values_strings [[(''url'', JStr ''http://[bad'')]]
   \<and> example_netloc ''http://[bad'' = None
   \<and> analyze_urls example_netloc Map.empty [[(''url'', JStr ''http://[bad'')]] = Inl ValueError
   \<and> calculate_all_metrics example_lib bad_host_files [''data/pages.jsonl''] = Inl ValueError"
proof -
  have n: "\<not> list_all (netloc_accepts example_netloc) [[(''url'', JStr ''http://[bad'')]]"
    by (simp add: netloc_accepts_def URL_FIELDS_def example_netloc_def)
  have u: "analyze_urls example_netloc Map.empty [[(''url'', JStr ''http://[bad'')]]
             = Inl ValueError"
    using n by (rule analyze_urls_rejects)
  have c: "calculate_all_metrics example_lib bad_host_files [''data/pages.jsonl'']
             = Inl ValueError"
    using n bad_host_items
    by (simp add: calculate_all_metrics_def Let_def analyze_urls_rejects example_lib_def)
  show ?thesis
    using u c bad_host_items
    by (simp add: url_values_strings_def is_str_def example_netloc_def)
qed

theorem nonstring_url_raises_witness:
  "truthy (JInt 5) \<and> is_plain_nonstr (JInt 5)
   \<and> map_of [(''url'', JInt 5)] ''thread_url'' = None
   \<and> map_of [(''url'', JInt 5)] ''url'' = Some (JInt 5)
   \<and> analyze_threads example_re (py_repr example_lib) Map.empty [[(''url'', JInt 5)]]
        = Inl TypeError
   \<and> analyze_crawl_behavior [[(''url'', JInt 5)]] = Inl TypeError
   \<and> all_items (gather example_loads number_url_files [''data/pages.jsonl''])
        = [[(''url'', JInt 5)]]
   \<and> (\<exists>e. calculate_all_metrics example_lib number_url_files [''data/pages.jsonl''] = Inl e)
   \<and> list_all url_values_strings [forum_item]
   \<and> list_all (netloc_accepts example_netloc) [forum_item]
   \<and> (\<exists>m'. analyze_urls example_netloc Map.empty [forum_item] = Inr m')
   \<and> (\<exists>m'. analyze_threads example_re (py_repr example_lib) Map.empty [forum_item] = Inr m')
   \<and> (\<exists>c. analyze_crawl_behavior [forum_item] = Inr c)
   \<and> list_all url_values_strings
        (all_items (gather example_loads bad_host_files [''data/pages.jsonl'']))
   \<and> \<not> list_all (netloc_accepts example_netloc)
          (all_items (gather example_loads bad_host_files [''data/pages.jsonl'']))
   \<and> \<not> (\<exists>q. calculate_all_metrics example_lib bad_host_files [''data/pages.jsonl''] = Inr q)
   \<and> analyze_urls example_netloc Map.empty
        (all_items (gather example_loads bad_host_files [''data/pages.jsonl'']))
        = Inl ValueError"
proof -
  have jl: "json_loads example_lib = example_loads" and nl: "url_netloc example_lib = example_netloc"
    by (simp_all add: example_lib_def)
  have g: "all_items (gather (json_loads example_lib) number_url_files [''data/pages.jsonl''])
        = [] @ [(''url'', JInt 5)] # []"
    by (simp add: gather_def gather_step_def number_url_files_def path_suffix_def path_name_def
          load_jsonl_def example_lib_def example_loads_def Let_def)
  have h: "truthy (JInt 5) \<and> is_plain_nonstr (JInt 5)
      \<and> (map_of [(''url'', JInt 5)] ''thread_url'' = Some (JInt 5)
          \<or> (map_of [(''url'', JInt 5)] ''thread_url'' = None
              \<and> map_of [(''url'', JInt 5)] ''url'' = Some (JInt 5)))"
    by (simp add: is_plain_nonstr_def)
  have s: "list_all url_values_strings [forum_item]"
    by (simp add: url_values_strings_def forum_item_def is_str_def)
  have n: "list_all (netloc_accepts example_netloc) [forum_item]"
    by (simp add: netloc_accepts_def forum_item_def URL_FIELDS_def example_netloc_def)
  note th = nonstring_url_raises[where v = "JInt 5" and it = "[(''url'', JInt 5)]"
      and pre = "[]" and post = "[]" and lib = example_lib and fs = number_url_files
      and files = "[''data/pages.jsonl'']" and re = example_re and rp = "py_repr example_lib"
      and m = Map.empty and nl = example_netloc and items = "[forum_item]"]
  have 1: "analyze_threads example_re (py_repr example_lib) Map.empty [[(''url'', JInt 5)]]
        = Inl TypeError"
    and 2: "analyze_crawl_behavior [[(''url'', JInt 5)]] = Inl TypeError"
    and 3: "\<exists>e. calculate_all_metrics example_lib number_url_files [''data/pages.jsonl''] = Inl e"
    using th[THEN conjunct1] h g by simp_all
  have 4: "\<exists>m'. analyze_urls example_netloc Map.empty [forum_item] = Inr m'"
    using th[THEN conjunct2, THEN conjunct1] n by simp
  have 5: "(\<exists>m'. analyze_threads example_re (py_repr example_lib) Map.empty [forum_item] = Inr m')
        \<and> (\<exists>c. analyze_crawl_behavior [forum_item] = Inr c)"
    using th[THEN conjunct2, THEN conjunct2, THEN conjunct2, THEN conjunct1] s by simp
  have g': "all_items (gather example_loads number_url_files [''data/pages.jsonl''])
        = [[(''url'', JInt 5)]]"
    using g by (simp add: example_lib_def)
  have bs: "list_all url_values_strings
        (all_items (gather example_loads bad_host_files [''data/pages.jsonl'']))"
    by (simp add: bad_host_items url_values_strings_def is_str_def)
  have bn: "\<not> list_all (netloc_accepts example_netloc)
          (all_items (gather example_loads bad_host_files [''data/pages.jsonl'']))"
    by (simp add: bad_host_items netloc_accepts_def URL_FIELDS_def example_netloc_def)
  note tb = nonstring_url_raises[where lib = example_lib and fs = bad_host_files
      and files = "[''data/pages.jsonl'']" and nl = example_netloc and m = Map.empty
      and items = "all_items (gather example_loads bad_host_files [''data/pages.jsonl''])"]
  have 6: "\<not> (\<exists>q. calculate_all_metrics example_lib bad_host_files [''data/pages.jsonl'']
                  = Inr q)"
    using tb[THEN conjunct2, THEN conjunct2, THEN conjunct2, THEN conjunct2, THEN conjunct1]
      bs bn unfolding jl nl by blast
  have 7: "analyze_urls example_netloc Map.empty
        (all_items (gather example_loads bad_host_files [''data/pages.jsonl'']))
        = Inl ValueError"
    using tb[THEN conjunct2, THEN conjunct2, THEN conjunct2, THEN conjunct2, THEN conjunct2,
             THEN conjunct1] bn by blast
  show ?thesis using h 1 2 3 4 5 s n g' bs bn 6 7 by simp
qed

subsection \<open>The report of a run\<close>

lemma analyze_text_items_with_text:
  "analyze_text_content m items ''items_with_text''
     = (if text_lens items \<noteq> [] then Some (MInt (int (length (text_lens items))))
        else m ''items_with_text'')"
  by (simp add: analyze_text_content_def text_loop type_metrics_def length_metrics_def Let_def)

lemma calc_counts:
  assumes "calculate_all_metrics lib fs files = Inr q"
  shows "get_count q ''total_items'' = int (length (all_items (gather (json_loads lib) fs files)))"
    and "get_count q ''items_with_text''
           = int (length (text_lens (all_items (gather (json_loads lib) fs files))))"
proof -
  let ?items = "all_items (gather (json_loads lib) fs files)"
  have "get_count q ''total_items'' = int (length ?items)
        \<and> get_count q ''items_with_text'' = int (length (text_lens ?items))"
  proof (cases "?items = []")
    case True
    then have "q = Map.empty" using assms by (simp add: calc_empty)
    then show ?thesis using True by (simp add: get_count_def text_lens_Nil)
  next
    case False
    have a: "q ''total_items'' = Some (MInt (int (length ?items)))"
      unfolding calc_early_keys[OF _ assms False, of "''total_items''", simplified later_keys_def, simplified]
      by (subst text_keys) (simp_all add: text_metric_keys_def)
    have b: "q ''items_with_text''
        = (if text_lens ?items \<noteq> [] then Some (MInt (int (length (text_lens ?items)))) else None)"
      unfolding calc_early_keys[OF _ assms False, of "''items_with_text''", simplified later_keys_def, simplified]
      by (simp add: analyze_text_items_with_text)
    show ?thesis using a b by (simp add: get_count_def)
  qed
  then show "get_count q ''total_items'' = int (length ?items)"
    and "get_count q ''items_with_text'' = int (length (text_lens ?items))" by simp_all
qed

lemma add_throughput_text:
  "add_throughput q d rt ''text_items_per_second''
     = (if 0 < rt \<and> 0 < get_count q ''items_with_text''
        then Some (MReal (real_of_int (get_count q ''items_with_text'') / rt))
        else d ''text_items_per_second'')"
  by (simp add: add_throughput_def Let_def)

lemma add_throughput_items:
  "add_throughput q d rt ''items_per_second''
     = (if 0 < rt \<and> 0 < get_count q ''total_items''
        then Some (MReal (real_of_int (get_count q ''total_items'') / rt))
        else d ''items_per_second'')"
  by (simp add: add_throughput_def Let_def)

lemma merged_keys:
  assumes "calculate_all_metrics lib fs files = Inr q" "k \<notin> quality_keys"
    "k \<noteq> ''enhanced_metrics''" "k \<noteq> ''enhanced_metrics_error''"
  shows "add_enhanced lib fs (d ++ q) files k = d k"
proof -
  have "q k = None" using calc_keys[OF assms(2) assms(1)] .
  then show ?thesis using assms(3,4) by (simp add: add_enhanced_keys map_add_def)
qed

lemma not_quality_keys:
  "''items_extracted'' \<notin> quality_keys" "''items_per_second'' \<notin> quality_keys"
  "''text_items_per_second'' \<notin> quality_keys"
  by (simp_all add: quality_keys_def text_metric_keys_def later_keys_def)

lemma report_success_values:
  assumes st: "start_time c = Some t0"
    and q: "calculate_all_metrics lib (files_after env) files = Inr q"
  shows "\<exists>r. report lib env files 0 c = Inr r
    \<and> r ''items_extracted'' = Some (MInt (int (count_existing (files_after env) files)))
    \<and> r ''text_items_per_second''
        = (if 0 < stopped_at env - t0 \<and> text_lens (analysed_items lib env files) \<noteq> []
           then Some (MReal (real (length (text_lens (analysed_items lib env files)))
                             / (stopped_at env - t0)))
           else None)
    \<and> r ''items_per_second''
        = Some (MReal (if 0 < stopped_at env - t0
                       then (if analysed_items lib env files \<noteq> []
                             then real (length (analysed_items lib env files))
                             else real (count_existing (files_after env) files))
                            / (stopped_at env - t0)
                       else 0))"
proof -
  define n where "n = count_existing (files_after env) files"
  define rt where "rt = stopped_at env - t0"
  define res where "res =
     \<lparr>total_runtime_seconds = rt, items_extracted = int n,
      items_per_second = (if 0 < rt then real_of_int (int n) / rt else 0),
      peak_memory_mb = peak_memory c,
      avg_cpu_percent = (if cpu_samples c \<noteq> []
                   then sum_list (cpu_samples c) / real (length (cpu_samples c)) else 0),
      success = True, bm_collector_name = collector_name c, bm_scenario_name = scenario_name c,
      timestamp = human_stamp env, bm_log_file = log_file c\<rparr>"
  define d where "d = add_enhanced lib (files_after env) (model_dump res ++ q) files"
  have s: "stop c (int n) True (stopped_at env) (human_stamp env) = Inr res"
    using st by (simp add: stop_def Let_def res_def rt_def)
  have r: "report lib env files 0 c = Inr (add_throughput q d rt)"
    using s q by (simp add: report_def Let_def n_def add_quality_metrics_def d_def res_def)
  have d1: "d ''items_extracted'' = Some (MInt (int n))"
    unfolding d_def by (subst merged_keys[OF q]) (simp_all add: not_quality_keys model_dump_def res_def)
  have d2: "d ''text_items_per_second'' = None"
    unfolding d_def by (subst merged_keys[OF q]) (simp_all add: not_quality_keys model_dump_def)
  have d3: "d ''items_per_second'' = Some (MReal (if 0 < rt then real n / rt else 0))"
    unfolding d_def by (subst merged_keys[OF q]) (simp_all add: not_quality_keys model_dump_def res_def)
  have 1: "add_throughput q d rt ''items_extracted'' = Some (MInt (int n))"
    using d1 by (simp add: add_throughput_keys)
  have 2: "add_throughput q d rt ''text_items_per_second''
        = (if 0 < rt \<and> text_lens (analysed_items lib env files) \<noteq> []
           then Some (MReal (real (length (text_lens (analysed_items lib env files))) / rt))
           else None)"
    unfolding add_throughput_text calc_counts(2)[OF q] using d2 by (simp add: analysed_items_def)
  have 3: "add_throughput q d rt ''items_per_second''
        = Some (MReal (if 0 < rt
                       then (if analysed_items lib env files \<noteq> []
                             then real (length (analysed_items lib env files)) else real n) / rt
                       else 0))"
    unfolding add_throughput_items calc_counts(1)[OF q] using d3 by (simp add: analysed_items_def)
  show ?thesis using r 1 2 3 unfolding n_def rt_def by simp
qed


lemma execute_success_values:
  assumes rp: "run_process (started_collector logs env cn sn) (process_id env) (attach env) T
                 (ticks env) = Some (0, killed, c)"
    and q: "calculate_all_metrics lib (files_after env) files = Inr q"
  shows "\<exists>r. execute_benchmark lib logs env files cn sn T = Some (Inr r)
    \<and> r ''items_extracted'' = Some (MInt (int (count_existing (files_after env) files)))
    \<and> r ''text_items_per_second''
        = (if 0 < runtime env \<and> text_lens (analysed_items lib env files) \<noteq> []
           then Some (MReal (real (length (text_lens (analysed_items lib env files)))
                             / runtime env))
           else None)
    \<and> r ''items_per_second''
        = Some (MReal (if 0 < runtime env
                       then (if analysed_items lib env files \<noteq> []
                             then real (length (analysed_items lib env files))
                             else real (count_existing (files_after env) files))
                            / runtime env
                       else 0))"
proof -
  have st: "start_time c = Some (started_at env)"
    using run_process_start[OF rp] by (simp add: started_collector_start)
  have ex: "execute_benchmark lib logs env files cn sn T = Some (report lib env files 0 c)"
    using rp by (simp add: execute_benchmark_def)
  show ?thesis
    unfolding ex runtime_def using report_success_values[OF st q] by simp
qed


text \<open>
  C4, as the code has it. For every run whose process exits with code 0 and whose quality
  analysis raises nothing there is a report, and its \<open>text_items_per_second\<close> is the number
  of items with a text (whatever the length of the text) divided by the wall-clock
  runtime, when the runtime is positive and some item has a text; otherwise the report
  has no such entry.
\<close>

theorem text_items_per_second_counts_items_with_text:
  "run_process (started_collector logs env cn sn) (process_id env) (attach env) T (ticks env)
     = Some (0, killed, c)
   \<and> calculate_all_metrics lib (files_after env) files = Inr q \<longrightarrow>
   (\<exists>r. execute_benchmark lib logs env files cn sn T = Some (Inr r))
   \<and> report_value (execute_benchmark lib logs env files cn sn T) ''text_items_per_second''
       = (if 0 < runtime env \<and> text_lens (analysed_items lib env files) \<noteq> []
          then Some (MReal (real (length (text_lens (analysed_items lib env files)))
                            / runtime env))
          else None)"
proof
  assume a: "run_process (started_collector logs env cn sn) (process_id env) (attach env) T
               (ticks env) = Some (0, killed, c)
             \<and> calculate_all_metrics lib (files_after env) files = Inr q"
  from execute_success_values[OF conjunct1[OF a] conjunct2[OF a]]
  show "(\<exists>r. execute_benchmark lib logs env files cn sn T = Some (Inr r))
   \<and> report_value (execute_benchmark lib logs env files cn sn T) ''text_items_per_second''
       = (if 0 < runtime env \<and> text_lens (analysed_items lib env files) \<noteq> []
          then Some (MReal (real (length (text_lens (analysed_items lib env files)))
                            / runtime env))
          else None)"
    by (auto simp: report_value_def)
qed

lemma example_run:
  "run_process (started_collector ''logs'' (example_env [late_exit_tick] fs) ''reddit'' ''50'')
     (process_id (example_env [late_exit_tick] fs)) (attach (example_env [late_exit_tick] fs)) 300
     (ticks (example_env [late_exit_tick] fs))
   = Some (0, False,
       attach_to_process
         (started_collector ''logs'' (example_env [late_exit_tick] fs) ''reddit'' ''50'')
         4242 Attached)"
  by (simp add: run_process_def example_env_def late_exit_tick_def)

lemma example_items:
  "analysed_items example_lib (example_env ts example_files) [''data/run_posts.jsonl'']
     = [[], [(''text'', JStr ''hi'')]]"
  by (simp add: analysed_items_def gather_def gather_step_def example_files_def path_suffix_def
        path_name_def load_jsonl_def example_lib_def example_loads_def example_env_def Let_def)

lemma example_calc:
  "\<exists>q. calculate_all_metrics example_lib (files_after (example_env ts example_files))
         [''data/run_posts.jsonl''] = Inr q"
  unfolding calc_returns
  using example_items[of ts]
  by (simp add: analysed_items_def netloc_accepts_def threads_accepts_def URL_FIELDS_def
        has_key_def)

lemma example_text_lens: "text_lens [[], [(''text'', JStr ''hi'')]] = [2]"
  by (simp add: text_lens_def TEXT_FIELDS_def strip_nonempty_def isspace_def)

text \<open>
  The figure is not the throughput of the items with non-trivial text: a successful run of
  301 seconds over one item with the text ``hi'' (2 characters, below the threshold of
  50) reports 1 / 301, where no item has a non-trivial text; and a run with runtime 0
  reports no figure rather than 0.
\<close>

theorem text_items_per_second_counterexample:
  "report_value
     (execute_benchmark example_lib ''logs'' (example_env [late_exit_tick] example_files)
        [''data/run_posts.jsonl''] ''reddit'' ''50'' 300) ''text_items_per_second''
     = Some (MReal (1 / 301))
   \<and> runtime (example_env [late_exit_tick] example_files) = 301
   \<and> nontrivial_lens (analysed_items example_lib (example_env [late_exit_tick] example_files)
        [''data/run_posts.jsonl'']) = []
   \<and> report_value
       (execute_benchmark example_lib ''logs'' instant_env [''data/run_posts.jsonl'']
          ''reddit'' ''50'' 300) ''text_items_per_second'' = None
   \<and> runtime instant_env = 0"
proof -
  let ?env = "example_env [late_exit_tick] example_files"
  have i: "run_process (started_collector ''logs'' instant_env ''reddit'' ''50'')
      (process_id instant_env) (attach instant_env) 300 (ticks instant_env)
    = Some (0, False,
        attach_to_process (started_collector ''logs'' instant_env ''reddit'' ''50'') 4242 Attached)"
    by (simp add: run_process_def instant_env_def)
  have fi: "files_after instant_env = files_after (example_env [] example_files)"
    by (simp add: instant_env_def example_env_def)
  obtain q' where q': "calculate_all_metrics example_lib (files_after instant_env)
         [''data/run_posts.jsonl''] = Inr q'"
    unfolding fi using example_calc by blast
  have rt0: "runtime instant_env = 0" by (simp add: runtime_def instant_env_def)
  from execute_success_values[OF i q']
  have z: "report_value
       (execute_benchmark example_lib ''logs'' instant_env [''data/run_posts.jsonl'']
          ''reddit'' ''50'' 300) ''text_items_per_second'' = None"
    unfolding rt0 by (auto simp: report_value_def)
  obtain q where q: "calculate_all_metrics example_lib (files_after ?env)
         [''data/run_posts.jsonl''] = Inr q"
    using example_calc by blast
  have rt: "runtime ?env = 301" by (simp add: runtime_def example_env_def)
  from execute_success_values[OF example_run q]
  have "report_value
     (execute_benchmark example_lib ''logs'' ?env [''data/run_posts.jsonl''] ''reddit'' ''50'' 300)
       ''text_items_per_second'' = Some (MReal (1 / 301))"
    unfolding example_items example_text_lens rt by (auto simp: report_value_def)
  then show ?thesis
    using rt z rt0 by (simp add: example_items example_text_lens nontrivial_lens_def
                        MIN_NONTRIVIAL_TEXT_LENGTH_def)
qed

theorem text_items_per_second_counts_items_with_text_witness:
  "run_process (started_collector ''logs'' (example_env [late_exit_tick] example_files)
       ''reddit'' ''50'') 4242 Attached 300 [late_exit_tick]
     = Some (0, False,
         attach_to_process
           (started_collector ''logs'' (example_env [late_exit_tick] example_files)
              ''reddit'' ''50'') 4242 Attached)
   \<and> (\<exists>q. calculate_all_metrics example_lib example_files [''data/run_posts.jsonl''] = Inr q)
   \<and> text_lens (analysed_items example_lib (example_env [late_exit_tick] example_files)
        [''data/run_posts.jsonl'']) = [2]
   \<and> (\<exists>r. execute_benchmark example_lib ''logs'' (example_env [late_exit_tick] example_files)
              [''data/run_posts.jsonl''] ''reddit'' ''50'' 300 = Some (Inr r))
   \<and> report_value
        (execute_benchmark example_lib ''logs'' (example_env [late_exit_tick] example_files)
           [''data/run_posts.jsonl''] ''reddit'' ''50'' 300) ''text_items_per_second''
       = Some (MReal (1 / 301))"
proof -
  let ?env = "example_env [late_exit_tick] example_files"
  obtain q where q: "calculate_all_metrics example_lib (files_after ?env)
         [''data/run_posts.jsonl''] = Inr q"
    using example_calc by blast
  have rt: "runtime ?env = 301" by (simp add: runtime_def example_env_def)
  have fa: "files_after ?env = example_files" by (simp add: example_env_def)
  have rp: "run_process (started_collector ''logs'' ?env ''reddit'' ''50'') 4242 Attached 300
       [late_exit_tick]
     = Some (0, False,
         attach_to_process (started_collector ''logs'' ?env ''reddit'' ''50'') 4242 Attached)"
    using example_run[of example_files] by (simp add: example_env_def)
  have tl: "text_lens (analysed_items example_lib ?env [''data/run_posts.jsonl'']) = [2]"
    by (simp add: example_items example_text_lens)
  from text_items_per_second_counts_items_with_text[where env = ?env and lib = example_lib
      and logs = "''logs''" and cn = "''reddit''" and sn = "''50''" and T = 300
      and files = "[''data/run_posts.jsonl'']" and q = q and killed = False
      and c = "attach_to_process (started_collector ''logs'' ?env ''reddit'' ''50'') 4242 Attached"]
    example_run[of example_files] q
  have "(\<exists>r. execute_benchmark example_lib ''logs'' ?env [''data/run_posts.jsonl'']
               ''reddit'' ''50'' 300 = Some (Inr r))
     \<and> report_value
        (execute_benchmark example_lib ''logs'' ?env [''data/run_posts.jsonl'']
           ''reddit'' ''50'' 300) ''text_items_per_second'' = Some (MReal (1 / 301))"
    unfolding tl rt by simp
  then show ?thesis using rp q tl unfolding fa by blast
qed







subsection \<open>The duplication analyzer\<close>

lemma item_ids_Cons: "item_ids (it # items) = item_ids [it] @ item_ids items"
  by (simp add: item_ids_def)

lemma item_hashes_Cons: "item_hashes md5 (it # items) = item_hashes md5 [it] @ item_hashes md5 items"
  by (simp add: item_hashes_def)

lemma dup_id_accepts:
  "dup_accepts it \<Longrightarrow> dup_id st it = Inr (st\<lparr>post_ids := post_ids st @ item_ids [it]\<rparr>)"
  by (auto simp: dup_accepts_def dup_id_def item_ids_def post_id_of_def Let_def)

lemma dup_id_rejects:
  "\<not> (if truthy (post_id_of it) then hash_key (post_id_of it) \<noteq> None else True) \<Longrightarrow>
   dup_id st it = Inl TypeError"
  by (auto simp: dup_id_def post_id_of_def Let_def split: if_splits)

lemma dup_content_accepts:
  assumes "dup_accepts it" "unique_posts st = set (content_hashes st)"
    "duplicate_count st + card (set (content_hashes st)) = length (content_hashes st)"
  shows "\<exists>st'. dup_content md5 st it = Inr st'
     \<and> post_ids st' = post_ids st
     \<and> content_hashes st' = content_hashes st @ item_hashes md5 [it]
     \<and> unique_posts st' = set (content_hashes st')
     \<and> duplicate_count st' + card (set (content_hashes st')) = length (content_hashes st')"
proof (cases "truthy (text_of it)")
  case False
  then have "item_hashes md5 [it] = []"
    by (cases "text_of it") (simp_all add: item_hashes_def)
  then show ?thesis using False assms(2,3)
    by (simp add: dup_content_def text_of_def Let_def)
next
  case True
  then obtain s where s: "text_of it = JStr s" "s \<noteq> []"
    using assms(1) by (cases "text_of it") (auto simp: dup_accepts_def is_str_def)
  have h: "item_hashes md5 [it] = [md5 s]" using s by (simp add: item_hashes_def)
  show ?thesis
  proof (cases "md5 s \<in> set (content_hashes st)")
    case True
    then have "insert (md5 s) (set (content_hashes st)) = set (content_hashes st)" by auto
    then show ?thesis using s h assms(2,3) True
      by (simp add: dup_content_def text_of_def[symmetric] Let_def)
  next
    case False
    then show ?thesis using s h assms(2,3)
      by (simp add: dup_content_def text_of_def[symmetric] Let_def)
  qed
qed

lemma dup_content_rejects:
  "\<not> (if truthy (text_of it) then is_str (text_of it) else True) \<Longrightarrow>
   dup_content md5 st it = Inl AttributeError"
  by (cases "text_of it")
     (auto simp: dup_content_def text_of_def[symmetric] is_str_def Let_def split: if_splits)

lemma dup_step_accepts:
  assumes "dup_accepts it" "unique_posts st = set (content_hashes st)"
    "duplicate_count st + card (set (content_hashes st)) = length (content_hashes st)"
  shows "\<exists>st'. dup_step md5 st it = Inr st'
     \<and> post_ids st' = post_ids st @ item_ids [it]
     \<and> content_hashes st' = content_hashes st @ item_hashes md5 [it]
     \<and> unique_posts st' = set (content_hashes st')
     \<and> duplicate_count st' + card (set (content_hashes st')) = length (content_hashes st')"
proof -
  let ?st1 = "st\<lparr>post_ids := post_ids st @ item_ids [it]\<rparr>"
  have "unique_posts ?st1 = set (content_hashes ?st1)"
    "duplicate_count ?st1 + card (set (content_hashes ?st1)) = length (content_hashes ?st1)"
    using assms(2,3) by simp_all
  from dup_content_accepts[OF assms(1) this, of md5]
  show ?thesis by (simp add: dup_step_def dup_id_accepts[OF assms(1)])
qed

lemma dup_step_rejects: "\<not> dup_accepts it \<Longrightarrow> \<exists>e. dup_step md5 st it = Inl e"
proof -
  assume a: "\<not> dup_accepts it"
  show ?thesis
  proof (cases "dup_id st it")
    case (Inl e)
    then show ?thesis by (simp add: dup_step_def)
  next
    case (Inr st1)
    then have "(if truthy (post_id_of it) then hash_key (post_id_of it) \<noteq> None else True)"
      using dup_id_rejects[of it st] by (cases "hash_key (post_id_of it)") auto
    then have "\<not> (if truthy (text_of it) then is_str (text_of it) else True)"
      using a by (simp add: dup_accepts_def)
    then show ?thesis using Inr by (simp add: dup_step_def dup_content_rejects)
  qed
qed

lemma dup_loop_accepts:
  assumes "list_all dup_accepts items" "unique_posts st = set (content_hashes st)"
    "duplicate_count st + card (set (content_hashes st)) = length (content_hashes st)"
  shows "\<exists>st'. dup_loop md5 st items = Inr st'
     \<and> post_ids st' = post_ids st @ item_ids items
     \<and> content_hashes st' = content_hashes st @ item_hashes md5 items
     \<and> unique_posts st' = set (content_hashes st')
     \<and> duplicate_count st' + card (set (content_hashes st')) = length (content_hashes st')"
  using assms
proof (induction items arbitrary: st)
  case Nil
  then show ?case by (simp add: item_ids_def item_hashes_def)
next
  case (Cons it items)
  from Cons.prems(1) have a: "dup_accepts it" and r: "list_all dup_accepts items" by simp_all
  from dup_step_accepts[OF a Cons.prems(2,3), of md5] obtain st1 where
    s: "dup_step md5 st it = Inr st1"
       "post_ids st1 = post_ids st @ item_ids [it]"
       "content_hashes st1 = content_hashes st @ item_hashes md5 [it]"
       "unique_posts st1 = set (content_hashes st1)"
       "duplicate_count st1 + card (set (content_hashes st1)) = length (content_hashes st1)"
    by blast
  from Cons.IH[OF r s(4,5)] obtain st' where
    t: "dup_loop md5 st1 items = Inr st'"
       "post_ids st' = post_ids st1 @ item_ids items"
       "content_hashes st' = content_hashes st1 @ item_hashes md5 items"
       "unique_posts st' = set (content_hashes st')"
       "duplicate_count st' + card (set (content_hashes st')) = length (content_hashes st')"
    by blast
  show ?case
    using s(1,2,3) t
    by (simp add: item_ids_Cons[of it items] item_hashes_Cons[of md5 it items])
qed

lemma dup_loop_rejects:
  "\<not> list_all dup_accepts items \<Longrightarrow> \<exists>e. dup_loop md5 st items = Inl e"
proof (induction items arbitrary: st)
  case Nil then show ?case by simp
next
  case (Cons it items)
  show ?case
  proof (cases "dup_step md5 st it")
    case (Inl e) then show ?thesis by simp
  next
    case (Inr st1)
    then have "dup_accepts it" using dup_step_rejects[of it md5 st] by auto
    then have "\<not> list_all dup_accepts items" using Cons.prems by simp
    then show ?thesis using Cons.IH[of st1] Inr by simp
  qed
qed

lemma analyze_duplication_accepts:
  "list_all dup_accepts items \<Longrightarrow>
   analyze_duplication md5 items = Inr (dup_result (dup_final md5 items))"
proof -
  assume a: "list_all dup_accepts items"
  have i: "unique_posts (dup_init :: 'a dup_acc) = set (content_hashes (dup_init :: 'a dup_acc))"
    "duplicate_count (dup_init :: 'a dup_acc) + card (set (content_hashes (dup_init :: 'a dup_acc)))
       = length (content_hashes (dup_init :: 'a dup_acc))"
    by (simp_all add: dup_init_def)
  from dup_loop_accepts[OF a i, of md5] obtain st' where
    s: "dup_loop md5 dup_init items = Inr st'"
       "post_ids st' = item_ids items"
       "content_hashes st' = item_hashes md5 items"
       "unique_posts st' = set (content_hashes st')"
       "duplicate_count st' + card (set (content_hashes st')) = length (content_hashes st')"
    by (auto simp: dup_init_def)
  have "duplicate_count st' = length (item_hashes md5 items) - card (set (item_hashes md5 items))"
    using s(3,5) by simp
  then have "st' = dup_final md5 items"
    using s(2,3,4) by (simp add: dup_final_def)
  then show ?thesis using s(1) by (simp add: analyze_duplication_def)
qed

lemma analyze_duplication_rejects:
  "\<not> list_all dup_accepts items \<Longrightarrow> \<exists>e. analyze_duplication md5 items = Inl e"
  using dup_loop_rejects[of items md5 dup_init] by (auto simp: analyze_duplication_def)

subsection \<open>Counters\<close>

lemma map_of_bump:
  "map_of (bump k kvs) k'
     = (if k' = k then Some (case map_of kvs k of None \<Rightarrow> 1 | Some n \<Rightarrow> n + 1)
        else map_of kvs k')"
  by (induction kvs) auto

lemma keys_bump: "fst ` set (bump k kvs) = insert k (fst ` set kvs)"
  by (induction k kvs rule: bump.induct) (auto simp: image_iff)

lemma distinct_bump: "distinct (map fst kvs) \<Longrightarrow> distinct (map fst (bump k kvs))"
proof (induction kvs)
  case Nil show ?case by simp
next
  case (Cons kv kvs)
  obtain k' n where kv: "kv = (k', n)" by (cases kv)
  show ?case using Cons keys_bump[of k kvs] by (auto simp: kv)
qed

lemma distinct_fold_bump:
  "distinct (map fst acc) \<Longrightarrow> distinct (map fst (fold bump xs acc))"
  by (induction xs arbitrary: acc) (simp_all add: distinct_bump)

lemma map_of_fold_bump:
  "map_of (fold bump xs acc) k
     = (if k \<in> set xs
        then Some (count_list xs k + (case map_of acc k of None \<Rightarrow> 0 | Some n \<Rightarrow> n))
        else map_of acc k)"
  by (induction xs arbitrary: acc) (auto simp: map_of_bump split: option.splits)

lemma map_of_counter:
  "map_of (counter xs) k = (if k \<in> set xs then Some (count_list xs k) else None)"
  by (simp add: counter_def map_of_fold_bump)

lemma distinct_counter: "distinct (map fst (counter xs))"
  by (simp add: counter_def distinct_fold_bump)

lemma set_counter: "set (counter xs) = (\<lambda>k. (k, count_list xs k)) ` set xs"
proof -
  have "(k, n) \<in> set (counter xs) \<longleftrightarrow> k \<in> set xs \<and> n = count_list xs k" for k n
    using map_of_eq_Some_iff[OF distinct_counter, of xs k n]
    by (auto simp: map_of_counter split: if_splits)
  then show ?thesis by auto
qed

lemma mset_counter: "mset xs = mset ys \<Longrightarrow> mset (counter xs) = mset (counter ys)"
proof -
  assume a: "mset xs = mset ys"
  have s: "set xs = set ys" using a by (rule mset_eq_setD)
  have c: "count_list xs k = count_list ys k" for k
    using a by (metis count_mset)
  have "set (counter xs) = set (counter ys)" by (simp add: set_counter s c)
  moreover have "distinct (counter xs)" "distinct (counter ys)"
    using distinct_counter distinct_map by blast+
  ultimately show ?thesis by (simp add: set_eq_iff_mset_eq_distinct)
qed

lemma max_list_Max: "xs \<noteq> [] \<Longrightarrow> max_list xs = Max (set xs)"
  by (induction xs rule: max_list.induct) simp_all

lemma max_list_mset: "mset xs = mset ys \<Longrightarrow> max_list xs = max_list ys"
proof (cases "xs = []")
  case True
  assume "mset xs = mset ys"
  then show ?thesis using True by simp
next
  case False
  assume a: "mset xs = mset ys"
  then have "ys \<noteq> []" using False by auto
  then show ?thesis using False mset_eq_setD[OF a] by (simp add: max_list_Max)
qed

lemma length_filter_mset:
  "mset xs = mset ys \<Longrightarrow> length (filter P xs) = length (filter P ys)"
proof -
  assume "mset xs = mset ys"
  then have "mset (filter P xs) = mset (filter P ys)" by simp
  then show ?thesis by (rule mset_eq_length)
qed

lemma n_unique_card: "n_unique xs = card (set xs)"
  by (simp add: n_unique_def length_remdups_card_conv)

lemma n_unique_le: "n_unique xs \<le> length xs"
  by (simp add: n_unique_card card_length)

lemma dup_result_mset:
  assumes "mset (post_ids st) = mset (post_ids st')"
    "unique_posts st = unique_posts st'" "duplicate_count st = duplicate_count st'"
  shows "dup_result st = dup_result st'"
proof -
  have l: "length (post_ids st) = length (post_ids st')" using assms(1) by (rule mset_eq_length)
  have u: "n_unique (post_ids st) = n_unique (post_ids st')"
    using mset_eq_setD[OF assms(1)] by (simp add: n_unique_card)
  have e: "(post_ids st = []) = (post_ids st' = [])" using l by auto
  have c: "mset (counter (post_ids st)) = mset (counter (post_ids st'))"
    using assms(1) by (rule mset_counter)
  have f: "length (filter (\<lambda>(pid, c). 1 < c) (counter (post_ids st)))
         = length (filter (\<lambda>(pid, c). 1 < c) (counter (post_ids st')))"
    using c by (rule length_filter_mset)
  have "mset (map snd (counter (post_ids st))) = mset (map snd (counter (post_ids st')))"
    using c by (metis mset_map)
  then have m: "max_list (map snd (counter (post_ids st)))
       = max_list (map snd (counter (post_ids st')))"
    by (rule max_list_mset)
  show ?thesis
    unfolding dup_result_def Let_def l u f m e assms(2,3) by simp
qed

subsection \<open>Reordering the records\<close>

lemma mset_concat_map:
  "mset xs = mset ys \<Longrightarrow> mset (concat (map f xs)) = mset (concat (map f ys))"
proof -
  assume a: "mset xs = mset ys"
  have "mset (concat (map f zs)) = sum_mset (image_mset (\<lambda>x. mset (f x)) (mset zs))" for zs
    by (induction zs) simp_all
  then show ?thesis using a by simp
qed

lemma list_all_mset: "mset xs = mset ys \<Longrightarrow> list_all P xs = list_all P ys"
  using mset_eq_setD[of xs ys] by (simp add: list_all_iff)

lemma dup_final_mset:
  assumes "mset items = mset items'"
  shows "dup_result (dup_final md5 items) = dup_result (dup_final md5 items')"
proof -
  have i: "mset (item_ids items) = mset (item_ids items')"
    unfolding item_ids_def using assms by (rule mset_concat_map)
  have h: "mset (item_hashes md5 items) = mset (item_hashes md5 items')"
    unfolding item_hashes_def using assms by (rule mset_concat_map)
  have hs: "set (item_hashes md5 items) = set (item_hashes md5 items')"
    using h by (rule mset_eq_setD)
  have hl: "length (item_hashes md5 items) = length (item_hashes md5 items')"
    using h by (rule mset_eq_length)
  show ?thesis
    by (rule dup_result_mset) (simp_all add: dup_final_def i hs hl)
qed

lemma collect_ids_concat:
  "collect_ids rp items
     = concat (map (\<lambda>it. case first_present it ID_FIELDS of
                            Some v \<Rightarrow> [py_str rp v] | None \<Rightarrow> []) items)"
  by (induction items) (auto split: option.splits)

lemma analyze_identifiers_mset:
  assumes "mset items = mset items'"
  shows "analyze_identifiers rp m items = analyze_identifiers rp m items'"
proof -
  have c: "mset (collect_ids rp items) = mset (collect_ids rp items')"
    unfolding collect_ids_concat using assms by (rule mset_concat_map)
  have l: "length (collect_ids rp items) = length (collect_ids rp items')"
    using c by (rule mset_eq_length)
  have u: "n_unique (collect_ids rp items) = n_unique (collect_ids rp items')"
    using mset_eq_setD[OF c] by (simp add: n_unique_card)
  have e: "(collect_ids rp items = []) = (collect_ids rp items' = [])" using l by auto
  show ?thesis unfolding analyze_identifiers_def Let_def l u e by simp
qed

text \<open>
  C7. Reordering the records changes none of the duplication metrics. For two lists with
  the same records in any order, the duplication analyzer either raises on both or
  returns on both, and then returns the same metrics (\<open>duplication_rate\<close>,
  \<open>id_duplication_rate\<close>, \<open>content_duplication_rate\<close> and the counts beside them), which
  are computed from the multisets of the ids and of the content hashes; and the
  identifier analyzer writes the same entries, its \<open>duplication_rate\<close> among them.
\<close>

theorem duplication_invariant_under_reordering:
  "mset items = mset items' \<longrightarrow>
     ((\<exists>r. analyze_duplication md5 items = Inr r) = (\<exists>r. analyze_duplication md5 items' = Inr r))
     \<and> (\<forall>r. analyze_duplication md5 items = Inr r \<longrightarrow> analyze_duplication md5 items' = Inr r)
     \<and> analyze_identifiers rp m items = analyze_identifiers rp m items'"
proof
  assume a: "mset items = mset items'"
  have acc: "list_all dup_accepts items = list_all dup_accepts items'"
    using a by (rule list_all_mset)
  show "((\<exists>r. analyze_duplication md5 items = Inr r) = (\<exists>r. analyze_duplication md5 items' = Inr r))
     \<and> (\<forall>r. analyze_duplication md5 items = Inr r \<longrightarrow> analyze_duplication md5 items' = Inr r)
     \<and> analyze_identifiers rp m items = analyze_identifiers rp m items'"
  proof (cases "list_all dup_accepts items")
    case True
    then show ?thesis
      using acc dup_final_mset[OF a, of md5] analyze_identifiers_mset[OF a]
      by (simp add: analyze_duplication_accepts)
  next
    case False
    then have "\<exists>e. analyze_duplication md5 items = Inl e"
      "\<exists>e. analyze_duplication md5 items' = Inl e"
      using acc by (simp_all add: analyze_duplication_rejects)
    then show ?thesis using analyze_identifiers_mset[OF a] by auto
  qed
qed

lemma three_posts_result:
  "analyze_duplication (\<lambda>s. s) three_posts
     = Inr \<lparr>total_posts = 3, unique_post_ids = 2, unique_content_hashes = 2,
            dm_duplicate_count = 1, duplication_rate = 1 / 3, id_duplication_rate = 1 / 3,
            content_duplication_rate = 1 / 3, duplicate_id_count = 1, max_duplications = 2\<rparr>"
proof -
  have a: "list_all dup_accepts three_posts"
    by (simp add: three_posts_def dup_accepts_def post_id_of_def text_of_def py_or_def get_def
          get_default_def is_str_def)
  have i: "item_ids three_posts = [KStr ''a'', KStr ''a'', KStr ''b'']"
    by (simp add: three_posts_def item_ids_def post_id_of_def py_or_def get_def get_default_def)
  have h: "item_hashes (\<lambda>s. s) three_posts = [''hi'', ''hi'', ''bye'']"
    by (simp add: three_posts_def item_hashes_def text_of_def get_default_def)
  have c: "counter [KStr ''a'', KStr ''a'', KStr ''b''] = [(KStr ''a'', 2), (KStr ''b'', 1)]"
    by (simp add: counter_def)
  have s: "card (set [''hi'', ''hi'', ''bye'']) = 2" "n_unique [KStr ''a'', KStr ''a'', KStr ''b''] = 2"
    by (simp_all add: n_unique_def)
  show ?thesis
    unfolding analyze_duplication_accepts[OF a] dup_final_def dup_result_def i h Let_def
    using c s by simp
qed

theorem duplication_invariant_under_reordering_witness:
  "mset three_posts = mset three_posts_reordered
   \<and> analyze_duplication (md5_hexdigest example_lib) three_posts
       = Inr \<lparr>total_posts = 3, unique_post_ids = 2, unique_content_hashes = 2,
              dm_duplicate_count = 1, duplication_rate = 1 / 3, id_duplication_rate = 1 / 3,
              content_duplication_rate = 1 / 3, duplicate_id_count = 1, max_duplications = 2\<rparr>
   \<and> analyze_duplication (md5_hexdigest example_lib) three_posts_reordered
       = Inr \<lparr>total_posts = 3, unique_post_ids = 2, unique_content_hashes = 2,
              dm_duplicate_count = 1, duplication_rate = 1 / 3, id_duplication_rate = 1 / 3,
              content_duplication_rate = 1 / 3, duplicate_id_count = 1, max_duplications = 2\<rparr>
   \<and> analyze_identifiers (py_repr example_lib) Map.empty three_posts
       = analyze_identifiers (py_repr example_lib) Map.empty three_posts_reordered"
proof -
  have m: "mset three_posts = mset three_posts_reordered"
    by (simp add: three_posts_def three_posts_reordered_def)
  have r: "analyze_duplication (md5_hexdigest example_lib) three_posts
       = Inr \<lparr>total_posts = 3, unique_post_ids = 2, unique_content_hashes = 2,
              dm_duplicate_count = 1, duplication_rate = 1 / 3, id_duplication_rate = 1 / 3,
              content_duplication_rate = 1 / 3, duplicate_id_count = 1, max_duplications = 2\<rparr>"
    using three_posts_result by (simp add: example_lib_def)
  show ?thesis
    using duplication_invariant_under_reordering[of three_posts three_posts_reordered
            "md5_hexdigest example_lib" "py_repr example_lib" Map.empty] m r
    by simp
qed

subsection \<open>The author analyzers\<close>

lemma author_step_null:
  "get it ''author'' = JNull \<Longrightarrow>
   author_step st it = Inr (st\<lparr>acc_null_authors := acc_null_authors st + 1\<rparr>)"
  by (simp add: author_step_def)

lemma author_step_value:
  "get it ''author'' \<noteq> JNull \<Longrightarrow> hash_key (get it ''author'') = Some k \<Longrightarrow>
   author_step st it
     = Inr (st\<lparr>acc_posts_with_authors := acc_posts_with_authors st + 1,
               acc_unique_authors := insert k (acc_unique_authors st)\<rparr>)"
  by (simp add: author_step_def)

lemma author_step_unhashable:
  "get it ''author'' \<noteq> JNull \<Longrightarrow> hash_key (get it ''author'') = None \<Longrightarrow>
   author_step st it = Inl TypeError"
  by (simp add: author_step_def)

lemma author_loop_accepts:
  "list_all hashable (author_values items) \<Longrightarrow>
   author_loop st items
     = Inr (st\<lparr>acc_posts_with_authors := acc_posts_with_authors st + length (author_values items),
               acc_unique_authors :=
                 acc_unique_authors st \<union> set (List.map_filter hash_key (author_values items)),
               acc_null_authors :=
                 acc_null_authors st + (length items - length (author_values items))\<rparr>)"
proof (induction items arbitrary: st)
  case Nil
  show ?case by (simp add: author_values_def map_filter_simps)
next
  case (Cons it items)
  have le: "length (author_values items) \<le> length items"
    by (simp add: author_values_def)
  show ?case
  proof (cases "get it ''author'' = JNull")
    case True
    then have av: "author_values (it # items) = author_values items"
      by (simp add: author_values_def)
    then have "list_all hashable (author_values items)" using Cons.prems by simp
    from Cons.IH[OF this] show ?thesis
      using le by (simp add: author_step_null[OF True] av Suc_diff_le)
  next
    case False
    then have av: "author_values (it # items) = get it ''author'' # author_values items"
      by (simp add: author_values_def)
    from Cons.prems have hv: "hashable (get it ''author'')"
      and r: "list_all hashable (author_values items)"
      unfolding av by simp_all
    from hv obtain k where k: "hash_key (get it ''author'') = Some k"
      by (auto simp: hashable_def)
    from Cons.IH[OF r] show ?thesis
      using le by (simp add: author_step_value[OF False k] av k map_filter_simps)
  qed
qed

lemma author_loop_rejects:
  "\<not> list_all hashable (author_values items) \<Longrightarrow> author_loop st items = Inl TypeError"
proof (induction items arbitrary: st)
  case Nil
  then show ?case by (simp add: author_values_def)
next
  case (Cons it items)
  show ?case
  proof (cases "get it ''author'' = JNull")
    case True
    then have "author_values (it # items) = author_values items"
      by (simp add: author_values_def)
    then have "\<not> list_all hashable (author_values items)" using Cons.prems by simp
    from Cons.IH[OF this] show ?thesis by (simp add: author_step_null[OF True])
  next
    case False
    then have av: "author_values (it # items) = get it ''author'' # author_values items"
      by (simp add: author_values_def)
    show ?thesis
    proof (cases "hash_key (get it ''author'')")
      case None
      then show ?thesis by (simp add: author_step_unhashable[OF False])
    next
      case (Some k)
      then have "hashable (get it ''author'')" by (simp add: hashable_def)
      then have "\<not> list_all hashable (author_values items)"
        using Cons.prems unfolding av by simp
      from Cons.IH[OF this] show ?thesis by (simp add: author_step_value[OF False Some])
    qed
  qed
qed

lemma analyze_author_coverage_accepts:
  assumes "list_all hashable (author_values items)"
  shows "analyze_author_coverage items
     = Inr \<lparr>posts_with_authors = length (author_values items),
            posts_without_authors = length items - length (author_values items),
            author_coverage_rate =
              (if items = [] then 0
               else real (length (author_values items)) / real (length items)),
            unique_authors = card (set (List.map_filter hash_key (author_values items))),
            avg_posts_per_author =
              (if card (set (List.map_filter hash_key (author_values items))) = 0 then 0
               else real (length (author_values items))
                    / real (card (set (List.map_filter hash_key (author_values items)))))\<rparr>"
  by (simp add: analyze_author_coverage_def author_loop_accepts[OF assms] author_init_def
        author_result_def)

text \<open>
  C5, as the code has it. The author coverage analyzer reads the \<^verbatim>\<open>author\<close> key alone and
  counts every value that is not \<^verbatim>\<open>None\<close>. When each of these values can be hashed it
  returns, with \<open>posts_with_authors\<close> the number of these values,
  \<open>author_coverage_rate = posts_with_authors / total_items\<close> (0 for no items) and
  \<open>avg_posts_per_author = posts_with_authors / unique_authors\<close> (0 for no authors);
  otherwise it raises \<^verbatim>\<open>TypeError\<close>. The extraction of the first non-empty value over the
  list of author fields is that of \<^verbatim>\<open>_analyze_authors\<close>, which writes the number of
  values found, the number of different ones and their quotient, nothing when no value is
  found, and never a coverage rate.
\<close>

theorem author_coverage_counts_author_key:
  "(list_all hashable (author_values items) \<longrightarrow>
      (\<exists>r. analyze_author_coverage items = Inr r
         \<and> posts_with_authors r = length (author_values items)
         \<and> posts_without_authors r = length items - length (author_values items)
         \<and> unique_authors r = card (set (List.map_filter hash_key (author_values items)))
         \<and> author_coverage_rate r
             = (if items = [] then 0 else real (posts_with_authors r) / real (length items))
         \<and> avg_posts_per_author r
             = (if unique_authors r = 0 then 0
                else real (posts_with_authors r) / real (unique_authors r))))
   \<and> (\<not> list_all hashable (author_values items) \<longrightarrow>
        analyze_author_coverage items = Inl TypeError)
   \<and> (collect_authors rp items \<noteq> [] \<longrightarrow>
        analyze_authors rp m items ''items_with_authors''
          = Some (MInt (int (length (collect_authors rp items))))
        \<and> analyze_authors rp m items ''unique_authors''
          = Some (MInt (int (n_unique (collect_authors rp items))))
        \<and> analyze_authors rp m items ''items_per_author''
          = Some (MReal (real (length (collect_authors rp items))
                         / real (n_unique (collect_authors rp items)))))
   \<and> (collect_authors rp items = [] \<longrightarrow> analyze_authors rp m items = m)
   \<and> analyze_authors rp m items ''author_coverage_rate'' = m ''author_coverage_rate''"
proof (intro conjI impI)
  assume "list_all hashable (author_values items)"
  then show "\<exists>r. analyze_author_coverage items = Inr r
         \<and> posts_with_authors r = length (author_values items)
         \<and> posts_without_authors r = length items - length (author_values items)
         \<and> unique_authors r = card (set (List.map_filter hash_key (author_values items)))
         \<and> author_coverage_rate r
             = (if items = [] then 0 else real (posts_with_authors r) / real (length items))
         \<and> avg_posts_per_author r
             = (if unique_authors r = 0 then 0
                else real (posts_with_authors r) / real (unique_authors r))"
    by (simp add: analyze_author_coverage_accepts)
next
  assume "\<not> list_all hashable (author_values items)"
  then show "analyze_author_coverage items = Inl TypeError"
    by (simp add: analyze_author_coverage_def author_loop_rejects)
qed (simp_all add: analyze_authors_def Let_def)

text \<open>
  The coverage rate is not taken over the prioritized field list, nor over non-empty
  values: a record whose author stands under \<^verbatim>\<open>user\<close> has coverage 0, though the
  extraction over the field list finds ``bob'', and a record whose \<^verbatim>\<open>author\<close> is the empty
  string has coverage 1, though that extraction finds nothing.
\<close>

theorem author_coverage_counterexample:
  "analyze_author_coverage [[(''user'', JStr ''bob'')]]
     = Inr \<lparr>posts_with_authors = 0, posts_without_authors = 1, author_coverage_rate = 0,
            unique_authors = 0, avg_posts_per_author = 0\<rparr>
   \<and> collect_authors (py_repr example_lib) [[(''user'', JStr ''bob'')]] = [''bob'']
   \<and> analyze_author_coverage [[(''author'', JStr [])]]
     = Inr \<lparr>posts_with_authors = 1, posts_without_authors = 0, author_coverage_rate = 1,
            unique_authors = 1, avg_posts_per_author = 1\<rparr>
   \<and> collect_authors (py_repr example_lib) [[(''author'', JStr [])]] = []"
  by (simp add: analyze_author_coverage_def author_init_def author_step_def author_result_def
        get_def get_default_def AUTHOR_FIELDS_def)

theorem author_coverage_counts_author_key_witness:
  "list_all hashable (author_values [forum_item, [(''user'', JStr ''bob'')], forum_item])
   \<and> (\<exists>r. analyze_author_coverage [forum_item, [(''user'', JStr ''bob'')], forum_item] = Inr r
          \<and> posts_with_authors r = 2 \<and> posts_without_authors r = 1 \<and> unique_authors r = 1
          \<and> author_coverage_rate r = 2 / 3 \<and> avg_posts_per_author r = 2)
   \<and> \<not> list_all hashable (author_values [[(''author'', JArr [])]])
   \<and> analyze_author_coverage [[(''author'', JArr [])]] = Inl TypeError
   \<and> collect_authors (py_repr example_lib) [forum_item, [(''user'', JStr ''bob'')]]
       = [''amira'', ''bob'']
   \<and> analyze_authors (py_repr example_lib) Map.empty [forum_item, [(''user'', JStr ''bob'')]]
        ''items_per_author'' = Some (MReal 1)"
proof -
  let ?items = "[forum_item, [(''user'', JStr ''bob'')], forum_item]"
  have av: "author_values ?items = [JStr ''amira'', JStr ''amira'']"
    by (simp add: author_values_def forum_item_def get_def get_default_def)
  have h: "list_all hashable (author_values ?items)" by (simp add: av hashable_def)
  have av': "author_values [[(''author'', JArr [])]] = [JArr []]"
    by (simp add: author_values_def get_def get_default_def)
  have nh: "\<not> list_all hashable (author_values [[(''author'', JArr [])]])"
    by (simp add: av' hashable_def)
  have ca: "collect_authors (py_repr example_lib) [forum_item, [(''user'', JStr ''bob'')]]
       = [''amira'', ''bob'']"
    by (simp add: forum_item_def AUTHOR_FIELDS_def)
  have 1: "\<exists>r. analyze_author_coverage ?items = Inr r
          \<and> posts_with_authors r = 2 \<and> posts_without_authors r = 1 \<and> unique_authors r = 1
          \<and> author_coverage_rate r = 2 / 3 \<and> avg_posts_per_author r = 2"
    using author_coverage_counts_author_key[where items = ?items, THEN conjunct1] h
    by (auto simp: av map_filter_simps)
  have 2: "analyze_author_coverage [[(''author'', JArr [])]] = Inl TypeError"
    using author_coverage_counts_author_key[where items = "[[(''author'', JArr [])]]",
            THEN conjunct2, THEN conjunct1] nh by simp
  have 3: "analyze_authors (py_repr example_lib) Map.empty
        [forum_item, [(''user'', JStr ''bob'')]] ''items_per_author'' = Some (MReal 1)"
    using author_coverage_counts_author_key[where rp = "py_repr example_lib"
            and items = "[forum_item, [(''user'', JStr ''bob'')]]" and m = Map.empty,
            THEN conjunct2, THEN conjunct2, THEN conjunct1] ca
    by (simp add: n_unique_def)
  show ?thesis using h 1 nh 2 ca 3 by blast
qed

subsection \<open>The range of the duplication rates\<close>

lemma repeated_text_accepts: "list_all dup_accepts repeated_text_items"
  by (simp add: repeated_text_items_def dup_accepts_def post_id_of_def text_of_def py_or_def
        get_def get_default_def is_str_def)

lemma text_without_id_accepts: "list_all dup_accepts text_without_id_items"
  by (simp add: text_without_id_items_def dup_accepts_def post_id_of_def text_of_def py_or_def
        get_def get_default_def is_str_def)

text \<open>
  C2 at two record lists the duplication analyzer accepts. Its \<open>duplication_rate\<close> divides
  the number of repeated texts by the number of records with an id, and its
  \<open>content_duplication_rate\<close> subtracts the number of distinct texts from the number of
  records with an id: with three posts of the same text and no id beside one post with an
  id, \<open>duplication_rate\<close> is 2; with one post with an id and a text beside a post with
  another text and no id, \<open>content_duplication_rate\<close> is -1.
\<close>

theorem duplication_rates_out_of_range:
  "analyze_duplication (md5_hexdigest example_lib) repeated_text_items
     = Inr \<lparr>total_posts = 1, unique_post_ids = 1, unique_content_hashes = 1,
            dm_duplicate_count = 2, duplication_rate = 2, id_duplication_rate = 0,
            content_duplication_rate = 0, duplicate_id_count = 0, max_duplications = 1\<rparr>
   \<and> analyze_duplication (md5_hexdigest example_lib) text_without_id_items
     = Inr \<lparr>total_posts = 1, unique_post_ids = 1, unique_content_hashes = 2,
            dm_duplicate_count = 0, duplication_rate = 0, id_duplication_rate = 0,
            content_duplication_rate = - 1, duplicate_id_count = 0, max_duplications = 1\<rparr>"
proof -
  have i: "item_ids repeated_text_items = [KStr ''x'']"
    "item_ids text_without_id_items = [KStr ''x'']"
    by (simp_all add: repeated_text_items_def text_without_id_items_def item_ids_def
          post_id_of_def py_or_def get_def get_default_def)
  have h: "item_hashes (\<lambda>s. s) repeated_text_items = [''a'', ''a'', ''a'']"
    "item_hashes (\<lambda>s. s) text_without_id_items = [''a'', ''b'']"
    by (simp_all add: repeated_text_items_def text_without_id_items_def item_hashes_def
          text_of_def get_default_def)
  have c: "counter [KStr ''x''] = [(KStr ''x'', 1)]" by (simp add: counter_def)
  have s: "card (set [''a'', ''a'', ''a'']) = 1" "card (set [''a'', ''b'']) = 2"
    "n_unique [KStr ''x''] = 1"
    by (simp_all add: n_unique_def)
  have m: "md5_hexdigest example_lib = (\<lambda>s. s)" by (simp add: example_lib_def)
  show ?thesis
    unfolding m analyze_duplication_accepts[OF repeated_text_accepts]
      analyze_duplication_accepts[OF text_without_id_accepts]
      dup_final_def dup_result_def i h Let_def
    using c s by simp
qed


text \<open>
  The \<open>duplication_rate\<close> of the identifier analyzer, which divides the number of repeated
  ids by the number of ids, is a number from 0 to 1 when it is written.
\<close>

lemma identifiers_rate_entry:
  "analyze_identifiers rp m items ''duplication_rate''
     = (if n_unique (collect_ids rp items) < length (collect_ids rp items)
        then Some (MReal ((real (length (collect_ids rp items))
                           - real (n_unique (collect_ids rp items)))
                          / real (length (collect_ids rp items))))
        else m ''duplication_rate'')"
  by (auto simp: analyze_identifiers_def Let_def)

lemma unit_difference:
  fixes u l :: nat
  assumes "u < l"
  shows "0 \<le> (real l - real u) / real l" "(real l - real u) / real l \<le> 1"
proof -
  have "0 < real l" using assms by simp
  moreover have "real u \<le> real l" using assms by simp
  ultimately show "0 \<le> (real l - real u) / real l" "(real l - real u) / real l \<le> 1"
    by (simp_all add: divide_le_eq_1)
qed

lemma identifiers_duplication_rate:
  "unit_rate (analyze_identifiers rp Map.empty items ''duplication_rate'')"
  unfolding identifiers_rate_entry
  by (simp add: unit_rate_def unit_difference)

end
